theory Spec2Isabelle
  imports Main "HOL-Library.Word"
begin

unbundle bit_operations_syntax

section \<open>The animation package decoder of tools/parse_anim_dat.py\<close>

text \<open>
  The model follows \<^verbatim>\<open>parse_dat\<close> from the point where the file has been read:
  \<^verbatim>\<open>data\<close> is the content of the file, a Python \<^verbatim>\<open>bytes\<close> object, that is a list
  of 8-bit values. Python integers are unbounded, so every decoded number is an
  \<^typ>\<open>int\<close>; the cursor \<^verbatim>\<open>offset\<close> and the loop counters never go negative and are
  \<^typ>\<open>nat\<close>. The two exceptions the reads can raise are values of \<open>error\<close>. The
  lines written by \<^verbatim>\<open>print\<close> are returned next to the outcome, in the order printed.
\<close>

subsection \<open>Bytes, indexing, slicing and struct.unpack\<close>

type_synonym bytes = "8 word list"

datatype error = IndexError | StructError

text \<open>\<^verbatim>\<open>data[offset]\<close>: the byte as an unsigned integer, IndexError out of range.\<close>

definition index_byte :: "bytes \<Rightarrow> nat \<Rightarrow> error + int" where
  "index_byte data offset =
     (if offset < length data then Inr (uint (data ! offset)) else Inl IndexError)"

text \<open>\<^verbatim>\<open>data[a:b]\<close> for \<open>0 \<le> a \<le> b\<close>: a slice never raises, it is cut at the end.\<close>

definition bytes_slice :: "bytes \<Rightarrow> nat \<Rightarrow> nat \<Rightarrow> bytes" where
  "bytes_slice data a b = take (b - a) (drop a data)"

text \<open>
  \<^verbatim>\<open>struct.unpack(fmt, buf)[0]\<close> for the three formats in use. The buffer must have
  exactly the size of the format, otherwise \<^verbatim>\<open>struct.error\<close> is raised.
\<close>

fun unpack_BE_H :: "bytes \<Rightarrow> error + int" where
  "unpack_BE_H [b0, b1] = Inr (uint b0 * 256 + uint b1)"
| "unpack_BE_H _ = Inl StructError"

fun unpack_b :: "bytes \<Rightarrow> error + int" where
  "unpack_b [b0] = Inr (sint b0)"
| "unpack_b _ = Inl StructError"

fun unpack_BE_I :: "bytes \<Rightarrow> error + int" where
  "unpack_BE_I [b0, b1, b2, b3] =
     Inr (uint b0 * 16777216 + uint b1 * 65536 + uint b2 * 256 + uint b3)"
| "unpack_BE_I _ = Inl StructError"

subsection \<open>Formatting numbers: str and hex\<close>

definition digit_char :: "nat \<Rightarrow> char" where
  "digit_char d = ''0123456789abcdef'' ! d"

fun str_nat :: "nat \<Rightarrow> string" where
  "str_nat n = (if n < 10 then [digit_char n] else str_nat (n div 10) @ [digit_char (n mod 10)])"

fun hex_nat :: "nat \<Rightarrow> string" where
  "hex_nat n = (if n < 16 then [digit_char n] else hex_nat (n div 16) @ [digit_char (n mod 16)])"

declare str_nat.simps [simp del] hex_nat.simps [simp del]

definition str_int :: "int \<Rightarrow> string" where
  "str_int i = (if i < 0 then ''-'' @ str_nat (nat (- i)) else str_nat (nat i))"

definition hex_int :: "int \<Rightarrow> string" where
  "hex_int i = (if i < 0 then ''-0x'' @ hex_nat (nat (- i)) else ''0x'' @ hex_nat (nat i))"

subsection \<open>The decoded document\<close>

record rect =
  rect_x :: int
  rect_y :: int
  rect_w :: int
  rect_h :: int

record layer =
  rect :: rect
  sprite_index :: int
  x_offset :: int
  y_offset :: int
  transform :: int
  packed_raw :: string

record frame =
  frame_id :: int
  layers :: "layer list"
  delay :: int

record anim =
  anim_id :: int
  frames :: "frame list"

record package =
  package_id :: int
  animations :: "anim list"
  num_packages :: "int option"
  num_animations :: int
  max_sprite_index :: int

subsection \<open>The three nested loops\<close>

text \<open>
  The body of the layer loop (lines 73 to 104): four rect fields, each unpacked with
  \<^verbatim>\<open>'>H'\<close>, the packed field unpacked with \<^verbatim>\<open>'>I'\<close>, the four bit fields, and the
  running maximum. It returns the layer, the new offset and the new maximum.
\<close>

definition parse_layer :: "bytes \<Rightarrow> nat \<Rightarrow> int \<Rightarrow> error + (layer \<times> nat \<times> int)" where
  "parse_layer data offset max_sprite_idx =
     (case unpack_BE_H (bytes_slice data offset (offset + 2)) of Inl e \<Rightarrow> Inl e | Inr rx \<Rightarrow>
      case unpack_BE_H (bytes_slice data (offset + 2) (offset + 4)) of Inl e \<Rightarrow> Inl e | Inr ry \<Rightarrow>
      case unpack_BE_H (bytes_slice data (offset + 4) (offset + 6)) of Inl e \<Rightarrow> Inl e | Inr rw \<Rightarrow>
      case unpack_BE_H (bytes_slice data (offset + 6) (offset + 8)) of Inl e \<Rightarrow> Inl e | Inr rh \<Rightarrow>
      case unpack_BE_I (bytes_slice data (offset + 8) (offset + 12)) of Inl e \<Rightarrow> Inl e | Inr packed \<Rightarrow>
        let si = (drop_bit 23 packed) AND 0x1FF;
            xo = ((drop_bit 13 packed) AND 0x3FF) - 512;
            yo = ((drop_bit 3 packed) AND 0x3FF) - 512;
            tr = packed AND 0x7
        in Inr (\<lparr>rect = \<lparr>rect_x = rx, rect_y = ry, rect_w = rw, rect_h = rh\<rparr>,
                 sprite_index = si, x_offset = xo, y_offset = yo, transform = tr,
                 packed_raw = hex_int packed\<rparr>,
                offset + 12,
                if si > max_sprite_idx then si else max_sprite_idx))"

text \<open>\<^verbatim>\<open>for layer_id in range(num_layers)\<close>: \<open>n\<close> is the number of rounds left.\<close>

fun parse_layers :: "bytes \<Rightarrow> nat \<Rightarrow> nat \<Rightarrow> int \<Rightarrow> error + (layer list \<times> nat \<times> int)" where
  "parse_layers data 0 offset m = Inr ([], offset, m)"
| "parse_layers data (Suc n) offset m =
     (case parse_layer data offset m of Inl e \<Rightarrow> Inl e | Inr (l, offset', m') \<Rightarrow>
      case parse_layers data n offset' m' of Inl e \<Rightarrow> Inl e | Inr (ls, offset'', m'') \<Rightarrow>
        Inr (l # ls, offset'', m''))"

text \<open>
  The body of the frame loop (lines 58 to 106): the delay, a signed byte unpacked
  with \<^verbatim>\<open>'b'\<close>, the layer count read by indexing, then the layers.
\<close>

definition parse_frame :: "bytes \<Rightarrow> nat \<Rightarrow> nat \<Rightarrow> int \<Rightarrow> error + (frame \<times> nat \<times> int)" where
  "parse_frame data fid offset m =
     (case unpack_b (bytes_slice data offset (offset + 1)) of Inl e \<Rightarrow> Inl e | Inr d \<Rightarrow>
      case index_byte data (offset + 1) of Inl e \<Rightarrow> Inl e | Inr num_layers \<Rightarrow>
      case parse_layers data (nat num_layers) (offset + 2) m of Inl e \<Rightarrow> Inl e
      | Inr (ls, offset', m') \<Rightarrow>
          Inr (\<lparr>frame_id = int fid, layers = ls, delay = d\<rparr>, offset', m'))"

text \<open>\<^verbatim>\<open>for frame_id in range(num_frames)\<close>: \<open>n\<close> rounds left, \<open>fid\<close> the current index.\<close>

fun parse_frames :: "bytes \<Rightarrow> nat \<Rightarrow> nat \<Rightarrow> nat \<Rightarrow> int \<Rightarrow> error + (frame list \<times> nat \<times> int)" where
  "parse_frames data 0 fid offset m = Inr ([], offset, m)"
| "parse_frames data (Suc n) fid offset m =
     (case parse_frame data fid offset m of Inl e \<Rightarrow> Inl e | Inr (f, offset', m') \<Rightarrow>
      case parse_frames data n (Suc fid) offset' m' of Inl e \<Rightarrow> Inl e
      | Inr (fs, offset'', m'') \<Rightarrow> Inr (f # fs, offset'', m''))"

text \<open>The body of the animation loop (lines 49 to 108).\<close>

definition parse_anim :: "bytes \<Rightarrow> nat \<Rightarrow> nat \<Rightarrow> int \<Rightarrow> error + (anim \<times> nat \<times> int)" where
  "parse_anim data aid offset m =
     (case index_byte data offset of Inl e \<Rightarrow> Inl e | Inr num_frames \<Rightarrow>
      case parse_frames data (nat num_frames) 0 (offset + 1) m of Inl e \<Rightarrow> Inl e
      | Inr (fs, offset', m') \<Rightarrow> Inr (\<lparr>anim_id = int aid, frames = fs\<rparr>, offset', m'))"

fun parse_anims :: "bytes \<Rightarrow> nat \<Rightarrow> nat \<Rightarrow> nat \<Rightarrow> int \<Rightarrow> error + (anim list \<times> nat \<times> int)" where
  "parse_anims data 0 aid offset m = Inr ([], offset, m)"
| "parse_anims data (Suc n) aid offset m =
     (case parse_anim data aid offset m of Inl e \<Rightarrow> Inl e | Inr (a, offset', m') \<Rightarrow>
      case parse_anims data n (Suc aid) offset' m' of Inl e \<Rightarrow> Inl e
      | Inr (as, offset'', m'') \<Rightarrow> Inr (a # as, offset'', m''))"

subsection \<open>The header and the whole decoder\<close>

text \<open>
  Lines 34 to 38: only package 0 starts with the number of packages. The result is the
  value stored under \<^verbatim>\<open>num_packages\<close> (if any), the new offset and the line printed.
\<close>

definition read_num_packages :: "bytes \<Rightarrow> int \<Rightarrow> error + (int option \<times> nat \<times> string list)" where
  "read_num_packages data pid =
     (if pid = 0 then
        (case index_byte data 0 of Inl e \<Rightarrow> Inl e
         | Inr np \<Rightarrow> Inr (Some np, 1, [''Num packages: '' @ str_int np]))
      else Inr (None, 0, []))"

text \<open>
  Lines 41 to 112, from the offset the header left: the number of animations, the
  loops, and the three lines printed. An exception leaves the lines printed before it.
\<close>

definition parse_body :: "bytes \<Rightarrow> int \<Rightarrow> int option \<Rightarrow> nat \<Rightarrow> string list \<times> (error + package \<times> nat)" where
  "parse_body data pid np offset =
     (case unpack_BE_H (bytes_slice data offset (offset + 2)) of Inl e \<Rightarrow> ([], Inl e)
      | Inr na \<Rightarrow>
         (case parse_anims data (nat na) 0 (offset + 2) 0 of
            Inl e \<Rightarrow> ([''Num animations: '' @ str_int na], Inl e)
          | Inr (as, offset', m) \<Rightarrow>
             ([''Num animations: '' @ str_int na,
               ''Max sprite index: '' @ str_int m,
               ''Bytes read: '' @ str_int (int offset') @ '', File size: '' @
                  str_int (int (length data))],
              Inr (\<lparr>package_id = pid, animations = as, num_packages = np,
                     num_animations = na, max_sprite_index = m\<rparr>, offset'))))"

text \<open>
  \<^verbatim>\<open>parse_dat\<close>: the printed lines, then the exception raised or the dictionary
  returned together with the final offset (the offset is a local variable of the
  source, visible only in the last printed line; the model keeps it as a number too).
\<close>

definition parse_dat :: "bytes \<Rightarrow> int \<Rightarrow> string list \<times> (error + package \<times> nat)" where
  "parse_dat data pid =
     (case read_num_packages data pid of Inl e \<Rightarrow> ([], Inl e)
      | Inr (np, offset, out) \<Rightarrow>
          (case parse_body data pid np offset of (out', r) \<Rightarrow> (out @ out', r)))"

subsection \<open>Notions used to state the properties\<close>

text \<open>
  These are not part of the program. A layer or a frame is decoded from the buffer
  when some run of the loop body returns it (a notion of the proofs only); the sizes
  give the number of bytes a decoded frame or animation occupies; \<open>declared_anims\<close>
  says that the count bytes found in the buffer at the places where the walk reads them
  are the lengths of the decoded sequences; \<open>header_size\<close> is the offset at which
  the animation loop starts; \<open>all_frames\<close> and \<open>all_layers\<close> list the frames and
  layers of a package in decoding order; \<open>repack\<close> puts the four sub-fields of a
  layer back at their bit positions. \<open>overrun_errors\<close> lists, for each byte that the
  walk of a decoded package consumed, the exception of the read that holds that byte:
  \<open>IndexError\<close> for the counts read by indexing (the number of packages, of frames and
  of layers), \<open>StructError\<close> for the fields read by \<^verbatim>\<open>struct.unpack\<close> (the number of
  animations, the delay, the four rect fields and the packed field).
\<close>

definition decoded_layer :: "bytes \<Rightarrow> layer \<Rightarrow> bool" where
  "decoded_layer data l \<longleftrightarrow> (\<exists>offset m offset' m'. parse_layer data offset m = Inr (l, offset', m'))"

definition decoded_frame :: "bytes \<Rightarrow> frame \<Rightarrow> bool" where
  "decoded_frame data f \<longleftrightarrow>
     (\<exists>fid offset m offset' m'. parse_frame data fid offset m = Inr (f, offset', m'))"

definition frame_size :: "frame \<Rightarrow> nat" where
  "frame_size f = 2 + 12 * length (layers f)"

definition anim_size :: "anim \<Rightarrow> nat" where
  "anim_size a = 1 + sum_list (map frame_size (frames a))"

fun declared_frames :: "bytes \<Rightarrow> nat \<Rightarrow> frame list \<Rightarrow> bool" where
  "declared_frames data offset [] = True"
| "declared_frames data offset (f # fs) =
     (offset + 1 < length data \<and> uint (data ! (offset + 1)) = int (length (layers f)) \<and>
      declared_frames data (offset + frame_size f) fs)"

fun declared_anims :: "bytes \<Rightarrow> nat \<Rightarrow> anim list \<Rightarrow> bool" where
  "declared_anims data offset [] = True"
| "declared_anims data offset (a # as) =
     (offset < length data \<and> uint (data ! offset) = int (length (frames a)) \<and>
      declared_frames data (offset + 1) (frames a) \<and>
      declared_anims data (offset + anim_size a) as)"

definition frames_layers :: "frame list \<Rightarrow> layer list" where
  "frames_layers fs = concat (map layers fs)"

definition anims_frames :: "anim list \<Rightarrow> frame list" where
  "anims_frames as = concat (map frames as)"

definition header_size :: "int \<Rightarrow> nat" where
  "header_size pid = (if pid = 0 then 3 else 2)"

definition all_frames :: "package \<Rightarrow> frame list" where
  "all_frames r = anims_frames (animations r)"

definition all_layers :: "package \<Rightarrow> layer list" where
  "all_layers r = frames_layers (all_frames r)"

definition repack :: "layer \<Rightarrow> int" where
  "repack l = push_bit 23 (sprite_index l) OR push_bit 13 (x_offset l + 512) OR
              push_bit 3 (y_offset l + 512) OR transform l"

definition frame_errors :: "frame \<Rightarrow> error list" where
  "frame_errors f = [StructError, IndexError] @ replicate (12 * length (layers f)) StructError"

definition anim_errors :: "anim \<Rightarrow> error list" where
  "anim_errors a = IndexError # concat (map frame_errors (frames a))"

definition overrun_errors :: "package \<Rightarrow> error list" where
  "overrun_errors r =
     (case num_packages r of None \<Rightarrow> [] | Some np \<Rightarrow> [IndexError]) @
     [StructError, StructError] @ concat (map anim_errors (animations r))"

subsection \<open>Example buffers\<close>

text \<open>
  The scenario of the specification (one animation, one frame with delay -5, one layer
  with rect 10, 20, 30, 40 and packed value 0x00800000, the rect fields written as
  the code reads them), the three-byte package, and a buffer whose layer has rect
  bytes 01 02 03 04 05 06 07 08.
\<close>

abbreviation (input) scenario_buffer :: bytes where
  "scenario_buffer \<equiv>
     [0x00, 0x01, 0x01, 0xFB, 0x01, 0x00, 0x0A, 0x00, 0x14, 0x00, 0x1E, 0x00, 0x28,
      0x00, 0x80, 0x00, 0x00]"

abbreviation (input) scenario_layer :: layer where
  "scenario_layer \<equiv>
     \<lparr>rect = \<lparr>rect_x = 10, rect_y = 20, rect_w = 30, rect_h = 40\<rparr>,
      sprite_index = 1, x_offset = - 512, y_offset = - 512, transform = 0,
      packed_raw = ''0x800000''\<rparr>"

abbreviation (input) scenario_frame :: frame where
  "scenario_frame \<equiv> \<lparr>frame_id = 0, layers = [scenario_layer], delay = - 5\<rparr>"

abbreviation (input) scenario_anim :: anim where
  "scenario_anim \<equiv> \<lparr>anim_id = 0, frames = [scenario_frame]\<rparr>"

abbreviation (input) scenario_package :: package where
  "scenario_package \<equiv>
     \<lparr>package_id = 7, animations = [scenario_anim], num_packages = None,
      num_animations = 1, max_sprite_index = 1\<rparr>"

abbreviation (input) scenario_lines :: "string list" where
  "scenario_lines \<equiv>
     [''Num animations: 1'', ''Max sprite index: 1'', ''Bytes read: 17, File size: 17'']"

abbreviation (input) empty_package :: package where
  "empty_package \<equiv>
     \<lparr>package_id = 0, animations = [], num_packages = Some 1, num_animations = 0,
      max_sprite_index = 0\<rparr>"

abbreviation (input) endian_buffer :: bytes where
  "endian_buffer \<equiv>
     [0x00, 0x01, 0x01, 0x00, 0x01, 0x01, 0x02, 0x03, 0x04, 0x05, 0x06, 0x07, 0x08,
      0x00, 0x00, 0x00, 0x00]"

abbreviation (input) endian_layer :: layer where
  "endian_layer \<equiv>
     \<lparr>rect = \<lparr>rect_x = 258, rect_y = 772, rect_w = 1286, rect_h = 1800\<rparr>,
      sprite_index = 0, x_offset = - 512, y_offset = - 512, transform = 0,
      packed_raw = ''0x0''\<rparr>"

section \<open>Properties\<close>

subsection \<open>Reads\<close>

lemma take_drop_step:
  "a < length xs \<Longrightarrow> take (Suc n) (drop a xs) = xs ! a # take n (drop (Suc a) xs)"
  by (simp add: Cons_nth_drop_Suc [symmetric])

lemma slice1: "a + 1 \<le> length data \<Longrightarrow> bytes_slice data a (a + 1) = [data ! a]"
  by (simp add: bytes_slice_def take_drop_step)

lemma slice2: "a + 2 \<le> length data \<Longrightarrow> bytes_slice data a (a + 2) = [data ! a, data ! (a + 1)]"
  by (simp add: bytes_slice_def numeral_2_eq_2 take_drop_step)

lemma slice4: "a + 4 \<le> length data \<Longrightarrow>
    bytes_slice data a (a + 4) = [data ! a, data ! (a + 1), data ! (a + 2), data ! (a + 3)]"
  by (simp add: bytes_slice_def numeral_eq_Suc take_drop_step)

lemma unpack_b_slice:
  assumes "b = a + 1"
  shows "unpack_b (bytes_slice data a b) =
     (if b \<le> length data then Inr (sint (data ! a)) else Inl StructError)"
proof (cases "a + 1 \<le> length data")
  case True
  then have "bytes_slice data a (a + 1) = [data ! a]"
    by (rule slice1)
  with True assms show ?thesis by simp
next
  case False
  then have "bytes_slice data a (a + 1) = []" by (simp add: bytes_slice_def)
  with False assms show ?thesis by simp
qed

lemma unpack_BE_H_slice:
  assumes "b = a + 2"
  shows "unpack_BE_H (bytes_slice data a b) =
     (if b \<le> length data then Inr (uint (data ! a) * 256 + uint (data ! (a + 1)))
      else Inl StructError)"
proof (cases "a + 2 \<le> length data")
  case True
  then have "bytes_slice data a (a + 2) = [data ! a, data ! (a + 1)]"
    by (rule slice2)
  with True assms show ?thesis by simp
next
  case False
  then have "length (bytes_slice data a (a + 2)) < 2" by (simp add: bytes_slice_def)
  then have "unpack_BE_H (bytes_slice data a (a + 2)) = Inl StructError"
    by (cases "bytes_slice data a (a + 2)" rule: unpack_BE_H.cases) auto
  with False assms show ?thesis by simp
qed

lemma unpack_BE_I_slice:
  assumes "b = a + 4"
  shows "unpack_BE_I (bytes_slice data a b) =
     (if b \<le> length data
      then Inr (uint (data ! a) * 16777216 + uint (data ! (a + 1)) * 65536 +
                uint (data ! (a + 2)) * 256 + uint (data ! (a + 3)))
      else Inl StructError)"
proof (cases "a + 4 \<le> length data")
  case True
  then have "bytes_slice data a (a + 4) = [data ! a, data ! (a + 1), data ! (a + 2), data ! (a + 3)]"
    by (rule slice4)
  with True assms show ?thesis by simp
next
  case False
  then have "length (bytes_slice data a (a + 4)) < 4" by (simp add: bytes_slice_def)
  then have "unpack_BE_I (bytes_slice data a (a + 4)) = Inl StructError"
    by (cases "bytes_slice data a (a + 4)" rule: unpack_BE_I.cases) auto
  with False assms show ?thesis by simp
qed

lemma uint8_bounds: "0 \<le> uint (b :: 8 word) \<and> uint b < 256"
  using uint_bounded [of b] by simp

lemma unpack_BE_I_range: "unpack_BE_I bs = Inr v \<Longrightarrow> 0 \<le> v \<and> v < 4294967296"
proof (cases bs rule: unpack_BE_I.cases)
  case (1 b0 b1 b2 b3)
  assume "unpack_BE_I bs = Inr v"
  with 1 have "v = uint b0 * 16777216 + uint b1 * 65536 + uint b2 * 256 + uint b3" by simp
  with uint8_bounds [of b0] uint8_bounds [of b1] uint8_bounds [of b2] uint8_bounds [of b3]
  show ?thesis by simp
qed auto

lemma unpack_BE_H_error: "unpack_BE_H bs = Inl e \<Longrightarrow> e = StructError"
  by (cases bs rule: unpack_BE_H.cases) auto

lemma unpack_BE_I_error: "unpack_BE_I bs = Inl e \<Longrightarrow> e = StructError"
  by (cases bs rule: unpack_BE_I.cases) auto

subsection \<open>What a successful run of each loop returns\<close>

lemma parse_layer_Inr:
  assumes "parse_layer data offset m = Inr (l, offset', m')"
  shows "offset' = offset + 12" and "offset + 12 \<le> length data"
    and "m' = max m (sprite_index l)"
proof -
  from assms obtain p where p: "unpack_BE_I (bytes_slice data (offset + 8) (offset + 12)) = Inr p"
    by (auto simp: parse_layer_def split: sum.splits)
  then show "offset + 12 \<le> length data"
    by (simp add: unpack_BE_I_slice split: if_splits)
  from assms show "offset' = offset + 12"
    by (auto simp: parse_layer_def Let_def split: sum.splits)
  from assms show "m' = max m (sprite_index l)"
    by (auto simp: parse_layer_def Let_def max_def split: sum.splits)
qed

lemma parse_layer_error: "parse_layer data offset m = Inl e \<Longrightarrow> e = StructError"
  by (auto simp: parse_layer_def Let_def split: sum.splits
      dest: unpack_BE_H_error unpack_BE_I_error)

lemma parse_layers_Inr:
  assumes "parse_layers data n offset m = Inr (ls, offset', m')"
  shows "length ls = n \<and> offset' = offset + 12 * n \<and> (offset \<le> length data \<longrightarrow> offset' \<le> length data)
    \<and> m' = fold max (map sprite_index ls) m \<and> (\<forall>l \<in> set ls. decoded_layer data l)"
  using assms
proof (induction n arbitrary: offset m ls offset' m')
  case 0
  then show ?case by auto
next
  case (Suc n)
  from Suc.prems obtain l o1 m1 ls1 where
    l: "parse_layer data offset m = Inr (l, o1, m1)" and
    r: "parse_layers data n o1 m1 = Inr (ls1, offset', m')" and
    ls: "ls = l # ls1"
    by (auto split: sum.splits)
  note pl = parse_layer_Inr [OF l]
  note ih = Suc.IH [OF r]
  have "decoded_layer data l" using l unfolding decoded_layer_def by blast
  with pl ih ls show ?case by (simp add: max.commute)
qed

lemma parse_frame_Inr:
  assumes "parse_frame data fid offset m = Inr (f, offset', m')"
  shows "offset + 2 \<le> length data" and "offset' = offset + 2 + 12 * length (layers f)"
    and "offset' \<le> length data" and "int (length (layers f)) = uint (data ! (offset + 1))"
    and "m' = fold max (map sprite_index (layers f)) m"
    and "\<forall>l \<in> set (layers f). decoded_layer data l"
    and "delay f = sint (data ! offset)" and "frame_id f = int fid"
proof -
  from assms obtain d nl ls where
    d: "unpack_b (bytes_slice data offset (offset + 1)) = Inr d" and
    nl: "index_byte data (offset + 1) = Inr nl" and
    ls: "parse_layers data (nat nl) (offset + 2) m = Inr (ls, offset', m')" and
    f: "f = \<lparr>frame_id = int fid, layers = ls, delay = d\<rparr>"
    by (auto simp: parse_frame_def split: sum.splits)
  from nl have b: "offset + 1 < length data" and nlv: "nl = uint (data ! (offset + 1))"
    by (auto simp: index_byte_def split: if_splits)
  from b show "offset + 2 \<le> length data" by simp
  note pl = parse_layers_Inr [OF ls]
  from pl f show "offset' = offset + 2 + 12 * length (layers f)" by simp
  from pl b show "offset' \<le> length data" by simp
  from pl f nlv show "int (length (layers f)) = uint (data ! (offset + 1))" by simp
  from pl f show "m' = fold max (map sprite_index (layers f)) m" by simp
  from pl f show "\<forall>l \<in> set (layers f). decoded_layer data l" by simp
  from d f show "delay f = sint (data ! offset)"
    by (simp add: unpack_b_slice split: if_splits)
  from f show "frame_id f = int fid" by simp
qed

lemma parse_frames_Inr:
  assumes "parse_frames data n fid offset m = Inr (fs, offset', m')"
  shows "length fs = n \<and> offset' = offset + sum_list (map frame_size fs)
    \<and> (offset \<le> length data \<longrightarrow> offset' \<le> length data)
    \<and> m' = fold max (map sprite_index (frames_layers fs)) m
    \<and> (\<forall>f \<in> set fs. decoded_frame data f)
    \<and> declared_frames data offset fs
    \<and> map frame_id fs = map int [fid ..< fid + n]"
  using assms
proof (induction n arbitrary: fid offset m fs offset' m')
  case 0
  then show ?case by (auto simp: frames_layers_def)
next
  case (Suc n)
  from Suc.prems obtain f o1 m1 fs1 where
    f: "parse_frame data fid offset m = Inr (f, o1, m1)" and
    r: "parse_frames data n (Suc fid) o1 m1 = Inr (fs1, offset', m')" and
    fs: "fs = f # fs1"
    by (auto split: sum.splits)
  note pf = parse_frame_Inr [OF f]
  note ih = Suc.IH [OF r]
  have df: "decoded_frame data f" using f unfolding decoded_frame_def by blast
  have o1: "o1 = offset + frame_size f" using pf(2) by (simp add: frame_size_def)
  have "length fs = Suc n" using ih fs by simp
  moreover have "offset' = offset + sum_list (map frame_size fs)"
    using ih fs o1 by simp
  moreover have "offset \<le> length data \<longrightarrow> offset' \<le> length data"
    using ih pf(3) by simp
  moreover have "m' = fold max (map sprite_index (frames_layers fs)) m"
    using ih pf(5) fs by (simp add: frames_layers_def)
  moreover have "\<forall>f \<in> set fs. decoded_frame data f"
    using ih df fs by simp
  moreover have "declared_frames data offset fs"
    using ih pf(1,4) fs o1 by simp
  moreover have "map frame_id fs = map int [fid ..< fid + Suc n]"
    using ih pf(8) fs by (simp add: upt_conv_Cons del: upt_Suc)
  ultimately show ?case by blast
qed

lemma parse_anim_Inr:
  assumes "parse_anim data aid offset m = Inr (a, offset', m')"
  shows "offset < length data" and "offset' = offset + anim_size a"
    and "offset' \<le> length data" and "int (length (frames a)) = uint (data ! offset)"
    and "m' = fold max (map sprite_index (frames_layers (frames a))) m"
    and "\<forall>f \<in> set (frames a). decoded_frame data f"
    and "declared_frames data (offset + 1) (frames a)"
    and "anim_id a = int aid"
    and "map frame_id (frames a) = map int [0 ..< length (frames a)]"
proof -
  from assms obtain nf fs where
    nf: "index_byte data offset = Inr nf" and
    fs: "parse_frames data (nat nf) 0 (offset + 1) m = Inr (fs, offset', m')" and
    a: "a = \<lparr>anim_id = int aid, frames = fs\<rparr>"
    by (auto simp: parse_anim_def split: sum.splits)
  from nf have b: "offset < length data" and nfv: "nf = uint (data ! offset)"
    by (auto simp: index_byte_def split: if_splits)
  from b show "offset < length data" .
  note pf = parse_frames_Inr [OF fs]
  from pf a show "offset' = offset + anim_size a" by (simp add: anim_size_def)
  from pf b show "offset' \<le> length data" by simp
  from pf a nfv show "int (length (frames a)) = uint (data ! offset)" by simp
  from pf a show "m' = fold max (map sprite_index (frames_layers (frames a))) m" by simp
  from pf a show "\<forall>f \<in> set (frames a). decoded_frame data f" by simp
  from pf a show "declared_frames data (offset + 1) (frames a)" by simp
  from a show "anim_id a = int aid" by simp
  from pf a show "map frame_id (frames a) = map int [0 ..< length (frames a)]" by simp
qed

lemma parse_anims_Inr:
  assumes "parse_anims data n aid offset m = Inr (as, offset', m')"
  shows "length as = n \<and> offset' = offset + sum_list (map anim_size as)
    \<and> (offset \<le> length data \<longrightarrow> offset' \<le> length data)
    \<and> m' = fold max (map sprite_index (frames_layers (anims_frames as))) m
    \<and> (\<forall>f \<in> set (anims_frames as). decoded_frame data f)
    \<and> declared_anims data offset as
    \<and> map anim_id as = map int [aid ..< aid + n]"
  using assms
proof (induction n arbitrary: aid offset m as offset' m')
  case 0
  then show ?case by (auto simp: frames_layers_def anims_frames_def)
next
  case (Suc n)
  from Suc.prems obtain a o1 m1 as1 where
    a: "parse_anim data aid offset m = Inr (a, o1, m1)" and
    r: "parse_anims data n (Suc aid) o1 m1 = Inr (as1, offset', m')" and
    as: "as = a # as1"
    by (auto split: sum.splits)
  note pa = parse_anim_Inr [OF a]
  note ih = Suc.IH [OF r]
  have "length as = Suc n" using ih as by simp
  moreover have "offset' = offset + sum_list (map anim_size as)"
    using ih as pa(2) by simp
  moreover have "offset \<le> length data \<longrightarrow> offset' \<le> length data"
    using ih pa(3) by simp
  moreover have "m' = fold max (map sprite_index (frames_layers (anims_frames as))) m"
    using ih pa(5) as by (simp add: frames_layers_def anims_frames_def)
  moreover have "\<forall>f \<in> set (anims_frames as). decoded_frame data f"
    using ih pa(6) as by (auto simp: anims_frames_def)
  moreover have "declared_anims data offset as"
    using ih pa(1,2,4,7) as by simp
  moreover have "map anim_id as = map int [aid ..< aid + Suc n]"
    using ih pa(8) as by (simp add: upt_conv_Cons del: upt_Suc)
  ultimately show ?case by blast
qed

lemma read_num_packages_Inr:
  assumes "read_num_packages data pid = Inr (np, offset, out)"
  shows "offset = (if pid = 0 then 1 else 0)" and "offset \<le> length data"
    and "np = (if pid = 0 then Some (uint (data ! 0)) else None)"
    and "out = (if pid = 0 then [''Num packages: '' @ str_int (uint (data ! 0))] else [])"
  using assms
  by (auto simp: read_num_packages_def index_byte_def Suc_le_eq split: if_splits sum.splits)

lemma parse_body_Inr:
  assumes "parse_body data pid np offset = (out, Inr (r, k))"
  shows "offset + 2 \<le> length data"
    and "num_animations r = uint (data ! offset) * 256 + uint (data ! (offset + 1))"
    and "parse_anims data (nat (num_animations r)) 0 (offset + 2) 0 =
           Inr (animations r, k, max_sprite_index r)"
    and "package_id r = pid" and "num_packages r = np"
    and "out = [''Num animations: '' @ str_int (num_animations r),
                ''Max sprite index: '' @ str_int (max_sprite_index r),
                ''Bytes read: '' @ str_int (int k) @ '', File size: '' @
                   str_int (int (length data))]"
proof -
  from assms obtain na as m where
    na: "unpack_BE_H (bytes_slice data offset (offset + 2)) = Inr na" and
    as: "parse_anims data (nat na) 0 (offset + 2) 0 = Inr (as, k, m)" and
    r: "r = \<lparr>package_id = pid, animations = as, num_packages = np,
             num_animations = na, max_sprite_index = m\<rparr>" and
    out: "out = [''Num animations: '' @ str_int na, ''Max sprite index: '' @ str_int m,
                ''Bytes read: '' @ str_int (int k) @ '', File size: '' @
                   str_int (int (length data))]"
    by (auto simp: parse_body_def split: sum.splits)
  from na show "offset + 2 \<le> length data"
    by (simp add: unpack_BE_H_slice split: if_splits)
  from na r show "num_animations r = uint (data ! offset) * 256 + uint (data ! (offset + 1))"
    by (simp add: unpack_BE_H_slice split: if_splits)
  from as r show "parse_anims data (nat (num_animations r)) 0 (offset + 2) 0 =
           Inr (animations r, k, max_sprite_index r)" by simp
  from r show "package_id r = pid" and "num_packages r = np" by simp_all
  from out r show "out = [''Num animations: '' @ str_int (num_animations r),
                ''Max sprite index: '' @ str_int (max_sprite_index r),
                ''Bytes read: '' @ str_int (int k) @ '', File size: '' @
                   str_int (int (length data))]" by simp
qed

lemma parse_dat_Inr:
  assumes "parse_dat data pid = (out, Inr (r, k))"
  shows "header_size pid \<le> length data"
    and "num_packages r = (if pid = 0 then Some (uint (data ! 0)) else None)"
    and "num_animations r = uint (data ! (header_size pid - 2)) * 256 + uint (data ! (header_size pid - 1))"
    and "parse_anims data (nat (num_animations r)) 0 (header_size pid) 0 =
           Inr (animations r, k, max_sprite_index r)"
    and "package_id r = pid"
proof -
  from assms obtain np offset out0 out1 where
    h: "read_num_packages data pid = Inr (np, offset, out0)" and
    b: "parse_body data pid np offset = (out1, Inr (r, k))"
    by (auto simp: parse_dat_def split: sum.splits prod.splits)
  note rh = read_num_packages_Inr [OF h]
  note pb = parse_body_Inr [OF b]
  have hs: "header_size pid = offset + 2" using rh(1) by (simp add: header_size_def)
  from pb(1) hs show "header_size pid \<le> length data" by simp
  from pb(5) rh(3) show "num_packages r = (if pid = 0 then Some (uint (data ! 0)) else None)" by simp
  from pb(2) hs show "num_animations r = uint (data ! (header_size pid - 2)) * 256 + uint (data ! (header_size pid - 1))"
    by simp
  from pb(3) hs show "parse_anims data (nat (num_animations r)) 0 (header_size pid) 0 =
           Inr (animations r, k, max_sprite_index r)" by simp
  from pb(4) show "package_id r = pid" .
qed

lemma read_num_packages_eq:
  "read_num_packages data pid =
     (if pid = 0 then
        (if data = [] then Inl IndexError
         else Inr (Some (uint (data ! 0)), 1, [''Num packages: '' @ str_int (uint (data ! 0))]))
      else Inr (None, 0, []))"
  by (simp add: read_num_packages_def index_byte_def)

lemma parse_body_eq:
  "parse_body data pid np offset =
     (if length data < offset + 2 then ([], Inl StructError)
      else
        let na = uint (data ! offset) * 256 + uint (data ! (offset + 1)) in
        case parse_anims data (nat na) 0 (offset + 2) 0 of
          Inl e \<Rightarrow> ([''Num animations: '' @ str_int na], Inl e)
        | Inr (as, k, m) \<Rightarrow>
            ([''Num animations: '' @ str_int na,
              ''Max sprite index: '' @ str_int m,
              ''Bytes read: '' @ str_int (int k) @ '', File size: '' @
                 str_int (int (length data))],
             Inr (\<lparr>package_id = pid, animations = as, num_packages = np,
                    num_animations = na, max_sprite_index = m\<rparr>, k)))"
  by (simp add: parse_body_def unpack_BE_H_slice Let_def not_less)

lemma fold_max_Max: "fold max xs (m::int) = Max (insert m (set xs))"
  using Max.set_eq_fold [of m xs] by simp

subsection \<open>Bit fields\<close>

lemma m9: "(0x1FF::int) = mask 9" by (simp add: mask_eq_exp_minus_1)

lemma m10: "(0x3FF::int) = mask 10" by (simp add: mask_eq_exp_minus_1)

lemma m3: "(0x7::int) = mask 3" by (simp add: mask_eq_exp_minus_1)

lemma repack_int:
  assumes "0 \<le> p" "p < 4294967296"
  shows "push_bit 23 ((drop_bit 23 p) AND 0x1FF) OR push_bit 13 ((drop_bit 13 p) AND 0x3FF)
         OR push_bit 3 ((drop_bit 3 p) AND 0x3FF) OR (p AND 0x7) = (p::int)"
proof -
  have "take_bit 32 p = p" using assms by (simp add: take_bit_int_eq_self)
  then have hi: "\<And>n. bit p n \<Longrightarrow> n < 32"
    by (metis bit_take_bit_iff)
  show ?thesis
    unfolding m9 m10 m3
  proof (rule bit_eqI)
    fix n
    show "bit (push_bit 23 (drop_bit 23 p AND mask 9) OR push_bit 13 (drop_bit 13 p AND mask 10) OR
             push_bit 3 (drop_bit 3 p AND mask 10) OR p AND mask 3) n = bit p n"
    proof -
      consider "n < 3" | "3 \<le> n" "n < 13" | "13 \<le> n" "n < 23" | "23 \<le> n" "n < 32" | "32 \<le> n"
        by linarith
      then show ?thesis
      proof cases
        case 1 then show ?thesis by (auto simp add: bit_simps)
      next
        case 2 then show ?thesis by (auto simp add: bit_simps)
      next
        case 3 then show ?thesis by (auto simp add: bit_simps)
      next
        case 4 then show ?thesis by (auto simp add: bit_simps)
      next
        case 5 with hi [of n] show ?thesis by (auto simp add: bit_simps)
      qed
    qed
  qed
qed

lemma and_mask_range: "0 \<le> (x::int) AND mask k \<and> x AND mask k < 2 ^ k"
  by (simp add: and_mask_lt_2p flip: take_bit_eq_mask)

lemma and_0x1FF_range: "0 \<le> (v::int) AND 0x1FF \<and> v AND 0x1FF < 512"
  using and_mask_range [of v 9] by (simp add: mask_eq_exp_minus_1)

lemma and_0x3FF_range: "0 \<le> (v::int) AND 0x3FF \<and> v AND 0x3FF < 1024"
  using and_mask_range [of v 10] by (simp add: mask_eq_exp_minus_1)

lemma and_0x7_range: "0 \<le> (v::int) AND 0x7 \<and> v AND 0x7 < 8"
  using and_mask_range [of v 3] by (simp add: mask_eq_exp_minus_1)

lemma layer_field_ranges:
  fixes p :: int
  shows "0 \<le> (drop_bit 23 p) AND 0x1FF \<and> (drop_bit 23 p) AND 0x1FF \<le> 511"
    and "- 512 \<le> ((drop_bit 13 p) AND 0x3FF) - 512 \<and> ((drop_bit 13 p) AND 0x3FF) - 512 \<le> 511"
    and "- 512 \<le> ((drop_bit 3 p) AND 0x3FF) - 512 \<and> ((drop_bit 3 p) AND 0x3FF) - 512 \<le> 511"
    and "0 \<le> p AND 0x7 \<and> p AND 0x7 \<le> 7"
  using and_0x1FF_range [of "drop_bit 23 p"] and_0x3FF_range [of "drop_bit 13 p"]
    and_0x3FF_range [of "drop_bit 3 p"] and_0x7_range [of p]
  by simp_all

lemma fields_of_0x800000:
  "(drop_bit 23 (0x00800000::int)) AND 0x1FF = 1"
  "((drop_bit 13 (0x00800000::int)) AND 0x3FF) - 512 = - 512"
  "((drop_bit 3 (0x00800000::int)) AND 0x3FF) - 512 = - 512"
  "(0x00800000::int) AND 0x7 = 0"
  by (simp_all add: drop_bit_eq_div)

subsection \<open>Decoded layers and frames\<close>

lemma decoded_layer_fields:
  assumes "decoded_layer data l"
  shows "\<exists>offset p. offset + 12 \<le> length data \<and>
           unpack_BE_I (bytes_slice data (offset + 8) (offset + 12)) = Inr p \<and>
           0 \<le> p \<and> p < 4294967296 \<and> packed_raw l = hex_int p \<and>
           sprite_index l = (drop_bit 23 p) AND 0x1FF \<and>
           x_offset l = ((drop_bit 13 p) AND 0x3FF) - 512 \<and>
           y_offset l = ((drop_bit 3 p) AND 0x3FF) - 512 \<and>
           transform l = p AND 0x7"
proof -
  from assms obtain offset m offset' m' where
    pl: "parse_layer data offset m = Inr (l, offset', m')"
    unfolding decoded_layer_def by blast
  then obtain p where p: "unpack_BE_I (bytes_slice data (offset + 8) (offset + 12)) = Inr p"
    by (auto simp: parse_layer_def split: sum.splits)
  from pl p have f: "packed_raw l = hex_int p \<and>
           sprite_index l = (drop_bit 23 p) AND 0x1FF \<and>
           x_offset l = ((drop_bit 13 p) AND 0x3FF) - 512 \<and>
           y_offset l = ((drop_bit 3 p) AND 0x3FF) - 512 \<and>
           transform l = p AND 0x7"
    by (auto simp: parse_layer_def Let_def split: sum.splits)
  from parse_layer_Inr(2) [OF pl] unpack_BE_I_range [OF p] p f show ?thesis by blast
qed

lemma decoded_frame_facts:
  assumes "decoded_frame data f"
  shows "- 128 \<le> delay f \<and> delay f \<le> 127" and "\<forall>l \<in> set (layers f). decoded_layer data l"
proof -
  from assms obtain fid offset m offset' m' where
    pf: "parse_frame data fid offset m = Inr (f, offset', m')"
    unfolding decoded_frame_def by blast
  from parse_frame_Inr(7) [OF pf] sint_ge [of "data ! offset"] sint_lt [of "data ! offset"]
  show "- 128 \<le> delay f \<and> delay f \<le> 127" by simp
  from parse_frame_Inr(6) [OF pf] show "\<forall>l \<in> set (layers f). decoded_layer data l" .
qed

lemma parse_dat_decoded:
  assumes "parse_dat data pid = (out, Inr (r, k))"
  shows "\<forall>f \<in> set (all_frames r). decoded_frame data f"
    and "\<forall>l \<in> set (all_layers r). decoded_layer data l"
proof -
  note pa = parse_anims_Inr [OF parse_dat_Inr(4) [OF assms]]
  from pa show fr: "\<forall>f \<in> set (all_frames r). decoded_frame data f"
    by (simp add: all_frames_def)
  show "\<forall>l \<in> set (all_layers r). decoded_layer data l"
  proof
    fix l assume "l \<in> set (all_layers r)"
    then obtain f where "f \<in> set (all_frames r)" and "l \<in> set (layers f)"
      by (auto simp: all_layers_def frames_layers_def)
    with fr decoded_frame_facts(2) show "decoded_layer data l" by blast
  qed
qed

subsection \<open>Truncated buffers\<close>

lemma index_byte_take:
  "index_byte (take n data) offset =
     (if offset < n then index_byte data offset else Inl IndexError)"
  by (simp add: index_byte_def)

lemma bytes_slice_take:
  "b \<le> n \<Longrightarrow> bytes_slice (take n data) a b = bytes_slice data a b"
  by (simp add: bytes_slice_def drop_take min_def)

lemma unpack_BE_H_take:
  assumes "b = a + 2"
  shows "unpack_BE_H (bytes_slice (take n data) a b) =
     (if b \<le> n then unpack_BE_H (bytes_slice data a b) else Inl StructError)"
  using assms by (simp add: bytes_slice_take unpack_BE_H_slice)

lemma unpack_BE_I_take:
  assumes "b = a + 4"
  shows "unpack_BE_I (bytes_slice (take n data) a b) =
     (if b \<le> n then unpack_BE_I (bytes_slice data a b) else Inl StructError)"
  using assms by (simp add: bytes_slice_take unpack_BE_I_slice)

lemma unpack_b_take:
  assumes "b = a + 1"
  shows "unpack_b (bytes_slice (take n data) a b) =
     (if b \<le> n then unpack_b (bytes_slice data a b) else Inl StructError)"
  using assms by (simp add: bytes_slice_take unpack_b_slice)

lemma parse_layer_take:
  "parse_layer (take n data) offset m =
     (if offset + 12 \<le> n then parse_layer data offset m else Inl StructError)"
proof (cases "offset + 12 \<le> n")
  case True
  then show ?thesis
    by (simp add: parse_layer_def bytes_slice_take cong: sum.case_cong)
next
  case False
  have "\<not> offset + 12 \<le> length (take n data)" using False by simp
  then have "\<not> (\<exists>v. parse_layer (take n data) offset m = Inr v)"
    using parse_layer_Inr(2) [of "take n data" offset m] by (metis prod_cases3)
  then obtain e where "parse_layer (take n data) offset m = Inl e"
    by (cases "parse_layer (take n data) offset m") auto
  with parse_layer_error [OF this] False show ?thesis by simp
qed

lemma parse_layers_take_ok:
  assumes "parse_layers data k offset m = Inr (ls, offset', m')" and "offset' \<le> n"
  shows "parse_layers (take n data) k offset m = Inr (ls, offset', m')"
  using assms
proof (induction k arbitrary: offset m ls)
  case 0
  then show ?case by simp
next
  case (Suc k)
  from Suc.prems(1) obtain l o1 m1 ls1 where
    l: "parse_layer data offset m = Inr (l, o1, m1)" and
    r: "parse_layers data k o1 m1 = Inr (ls1, offset', m')" and
    ls: "ls = l # ls1"
    by (auto split: sum.splits)
  have "o1 = offset + 12" using parse_layer_Inr(1) [OF l] .
  moreover have "o1 \<le> offset'" using parse_layers_Inr [OF r] by simp
  ultimately have "parse_layer (take n data) offset m = Inr (l, o1, m1)"
    using l Suc.prems(2) by (simp add: parse_layer_take)
  with Suc.IH [OF r Suc.prems(2)] ls show ?case by simp
qed

lemma parse_frame_take_ok:
  assumes "parse_frame data fid offset m = Inr (f, offset', m')" and "offset' \<le> n"
  shows "parse_frame (take n data) fid offset m = Inr (f, offset', m')"
proof -
  from assms(1) obtain d nl ls where
    d: "unpack_b (bytes_slice data offset (offset + 1)) = Inr d" and
    nl: "index_byte data (offset + 1) = Inr nl" and
    ls: "parse_layers data (nat nl) (offset + 2) m = Inr (ls, offset', m')" and
    f: "f = \<lparr>frame_id = int fid, layers = ls, delay = d\<rparr>"
    by (auto simp: parse_frame_def split: sum.splits)
  have "offset + 2 \<le> offset'" using parse_layers_Inr [OF ls] by simp
  with assms(2) have b: "offset + 2 \<le> n" by simp
  from d b have "unpack_b (bytes_slice (take n data) offset (offset + 1)) = Inr d"
    by (simp add: bytes_slice_take)
  moreover from nl b have "index_byte (take n data) (offset + 1) = Inr nl"
    by (simp add: index_byte_take)
  moreover note parse_layers_take_ok [OF ls assms(2)]
  ultimately show ?thesis using f by (simp add: parse_frame_def)
qed

lemma parse_frames_take_ok:
  assumes "parse_frames data k fid offset m = Inr (fs, offset', m')" and "offset' \<le> n"
  shows "parse_frames (take n data) k fid offset m = Inr (fs, offset', m')"
  using assms
proof (induction k arbitrary: fid offset m fs)
  case 0
  then show ?case by simp
next
  case (Suc k)
  from Suc.prems(1) obtain f o1 m1 fs1 where
    f: "parse_frame data fid offset m = Inr (f, o1, m1)" and
    r: "parse_frames data k (Suc fid) o1 m1 = Inr (fs1, offset', m')" and
    fs: "fs = f # fs1"
    by (auto split: sum.splits)
  have "o1 \<le> offset'" using parse_frames_Inr [OF r] by simp
  with Suc.prems(2) have "o1 \<le> n" by simp
  from parse_frame_take_ok [OF f this] Suc.IH [OF r Suc.prems(2)] fs
  show ?case by simp
qed

lemma parse_anim_take_ok:
  assumes "parse_anim data aid offset m = Inr (a, offset', m')" and "offset' \<le> n"
  shows "parse_anim (take n data) aid offset m = Inr (a, offset', m')"
proof -
  from assms(1) obtain nf fs where
    nf: "index_byte data offset = Inr nf" and
    fs: "parse_frames data (nat nf) 0 (offset + 1) m = Inr (fs, offset', m')" and
    a: "a = \<lparr>anim_id = int aid, frames = fs\<rparr>"
    by (auto simp: parse_anim_def split: sum.splits)
  have "offset + 1 \<le> offset'" using parse_frames_Inr [OF fs] by simp
  with assms(2) nf have "index_byte (take n data) offset = Inr nf"
    by (simp add: index_byte_take)
  with parse_frames_take_ok [OF fs assms(2)] a show ?thesis
    by (simp add: parse_anim_def)
qed

lemma parse_anims_take_ok:
  assumes "parse_anims data k aid offset m = Inr (as, offset', m')" and "offset' \<le> n"
  shows "parse_anims (take n data) k aid offset m = Inr (as, offset', m')"
  using assms
proof (induction k arbitrary: aid offset m as)
  case 0
  then show ?case by simp
next
  case (Suc k)
  from Suc.prems(1) obtain a o1 m1 as1 where
    a: "parse_anim data aid offset m = Inr (a, o1, m1)" and
    r: "parse_anims data k (Suc aid) o1 m1 = Inr (as1, offset', m')" and
    as: "as = a # as1"
    by (auto split: sum.splits)
  have "o1 \<le> offset'" using parse_anims_Inr [OF r] by simp
  with Suc.prems(2) have "o1 \<le> n" by simp
  from parse_anim_take_ok [OF a this] Suc.IH [OF r Suc.prems(2)] as
  show ?case by simp
qed

lemma parse_body_take:
  assumes "parse_body data pid np offset = (out, Inr (r, k))"
  shows "k \<le> n \<Longrightarrow> snd (parse_body (take n data) pid np offset) = Inr (r, k)"
    and "offset + 2 \<le> k" and "k \<le> length data"
proof -
  from assms obtain na as m where
    na: "unpack_BE_H (bytes_slice data offset (offset + 2)) = Inr na" and
    as: "parse_anims data (nat na) 0 (offset + 2) 0 = Inr (as, k, m)" and
    r: "r = \<lparr>package_id = pid, animations = as, num_packages = np,
             num_animations = na, max_sprite_index = m\<rparr>"
    by (auto simp: parse_body_def split: sum.splits)
  from na have b: "offset + 2 \<le> length data"
    by (simp add: unpack_BE_H_slice split: if_splits)
  show k: "offset + 2 \<le> k" using parse_anims_Inr [OF as] by simp
  show "k \<le> length data" using parse_anims_Inr [OF as] b by simp
  assume kn: "k \<le> n"
  with k na have "unpack_BE_H (bytes_slice (take n data) offset (offset + 2)) = Inr na"
    by (simp add: bytes_slice_take)
  with parse_anims_take_ok [OF as kn] r
  show "snd (parse_body (take n data) pid np offset) = Inr (r, k)"
    by (simp add: parse_body_def)
qed

lemma parse_dat_take:
  assumes "parse_dat data pid = (out, Inr (r, k))"
  shows "k \<le> n \<Longrightarrow> snd (parse_dat (take n data) pid) = Inr (r, k)"
    and "k \<le> length data"
proof -
  from assms obtain np offset out0 out1 where
    h: "read_num_packages data pid = Inr (np, offset, out0)" and
    b: "parse_body data pid np offset = (out1, Inr (r, k))"
    by (auto simp: parse_dat_def split: sum.splits prod.splits)
  note pb = parse_body_take [OF b]
  show "k \<le> length data" by (rule pb(3))
  assume kn: "k \<le> n"
  with pb(2) have "offset + 2 \<le> n" by simp
  with h have "read_num_packages (take n data) pid = Inr (np, offset, out0)"
    by (auto simp: read_num_packages_def index_byte_take split: if_splits sum.splits)
  with pb(1) [OF kn] show "snd (parse_dat (take n data) pid) = Inr (r, k)"
    by (auto simp: parse_dat_def split: prod.splits)
qed

subsection \<open>The exception raised on a truncated buffer\<close>

lemma length_frame_errors: "length (frame_errors f) = frame_size f"
  by (simp add: frame_errors_def frame_size_def)

lemma length_frames_errors:
  "length (concat (map frame_errors fs)) = sum_list (map frame_size fs)"
  by (induction fs) (simp_all add: length_frame_errors)

lemma length_anim_errors: "length (anim_errors a) = anim_size a"
  by (simp add: anim_errors_def anim_size_def length_frames_errors)

lemma length_anims_errors:
  "length (concat (map anim_errors as)) = sum_list (map anim_size as)"
  by (induction as) (simp_all add: length_anim_errors)

lemma parse_layers_take_error:
  assumes "parse_layers data k offset m = Inr (ls, offset', m')"
    and "offset \<le> n" and "n < offset'"
  shows "parse_layers (take n data) k offset m = Inl StructError"
  using assms
proof (induction k arbitrary: offset m ls)
  case 0
  then show ?case by simp
next
  case (Suc k)
  from Suc.prems(1) obtain l o1 m1 ls1 where
    l: "parse_layer data offset m = Inr (l, o1, m1)" and
    r: "parse_layers data k o1 m1 = Inr (ls1, offset', m')"
    by (auto split: sum.splits)
  have o1: "o1 = offset + 12" using parse_layer_Inr(1) [OF l] .
  show ?case
  proof (cases "o1 \<le> n")
    case True
    with l o1 have "parse_layer (take n data) offset m = Inr (l, o1, m1)"
      by (simp add: parse_layer_take)
    with Suc.IH [OF r True Suc.prems(3)] show ?thesis by simp
  next
    case False
    with o1 have "parse_layer (take n data) offset m = Inl StructError"
      by (simp add: parse_layer_take)
    then show ?thesis by simp
  qed
qed

lemma parse_frame_take_error:
  assumes "parse_frame data fid offset m = Inr (f, offset', m')"
    and "offset \<le> n" and "n < offset'"
  shows "parse_frame (take n data) fid offset m = Inl (frame_errors f ! (n - offset))"
proof -
  from assms(1) obtain d nl ls where
    d: "unpack_b (bytes_slice data offset (offset + 1)) = Inr d" and
    nl: "index_byte data (offset + 1) = Inr nl" and
    ls: "parse_layers data (nat nl) (offset + 2) m = Inr (ls, offset', m')" and
    f: "f = \<lparr>frame_id = int fid, layers = ls, delay = d\<rparr>"
    by (auto simp: parse_frame_def split: sum.splits)
  have o': "offset' = offset + 2 + 12 * length ls"
    using parse_frame_Inr(2) [OF assms(1)] f by simp
  consider "n = offset" | "n = offset + 1" | "offset + 2 \<le> n"
    using assms(2) by linarith
  then show ?thesis
  proof cases
    case 1
    then have "unpack_b (bytes_slice (take n data) offset (offset + 1)) = Inl StructError"
      by (simp add: unpack_b_take)
    with 1 show ?thesis by (simp add: parse_frame_def frame_errors_def)
  next
    case 2
    with d have "unpack_b (bytes_slice (take n data) offset (offset + 1)) = Inr d"
      by (simp add: bytes_slice_take)
    moreover from 2 have "index_byte (take n data) (offset + 1) = Inl IndexError"
      by (simp add: index_byte_take)
    ultimately show ?thesis using 2 by (simp add: parse_frame_def frame_errors_def)
  next
    case 3
    with d have "unpack_b (bytes_slice (take n data) offset (offset + 1)) = Inr d"
      by (simp add: bytes_slice_take)
    moreover from nl 3 have "index_byte (take n data) (offset + 1) = Inr nl"
      by (simp add: index_byte_take)
    moreover note parse_layers_take_error [OF ls 3 assms(3)]
    moreover have "frame_errors f ! (n - offset) = StructError"
    proof -
      have "n - offset - 2 < 12 * length ls" using 3 assms(3) o' by simp
      moreover have "n - offset = 2 + (n - offset - 2)" using 3 by simp
      ultimately show ?thesis
        using f by (simp add: frame_errors_def nth_append nth_Cons' del: replicate.simps)
    qed
    ultimately show ?thesis by (simp add: parse_frame_def)
  qed
qed

lemma parse_frames_take_error:
  assumes "parse_frames data k fid offset m = Inr (fs, offset', m')"
    and "offset \<le> n" and "n < offset'"
  shows "parse_frames (take n data) k fid offset m =
           Inl (concat (map frame_errors fs) ! (n - offset))"
  using assms
proof (induction k arbitrary: fid offset m fs)
  case 0
  then show ?case by simp
next
  case (Suc k)
  from Suc.prems(1) obtain f o1 m1 fs1 where
    f: "parse_frame data fid offset m = Inr (f, o1, m1)" and
    r: "parse_frames data k (Suc fid) o1 m1 = Inr (fs1, offset', m')" and
    fs: "fs = f # fs1"
    by (auto split: sum.splits)
  have o1: "o1 = offset + length (frame_errors f)"
    using parse_frame_Inr(2) [OF f] by (simp add: length_frame_errors frame_size_def)
  show ?case
  proof (cases "o1 \<le> n")
    case True
    have "n - offset = length (frame_errors f) + (n - o1)" using True o1 by simp
    then have "concat (map frame_errors fs) ! (n - offset) =
               concat (map frame_errors fs1) ! (n - o1)"
      using fs by (simp add: nth_append)
    with parse_frame_take_ok [OF f True] Suc.IH [OF r True Suc.prems(3)]
    show ?thesis by simp
  next
    case False
    then have lt: "n < o1" by simp
    then have "n - offset < length (frame_errors f)" using o1 Suc.prems(2) by simp
    then have "concat (map frame_errors fs) ! (n - offset) = frame_errors f ! (n - offset)"
      using fs by (simp add: nth_append)
    with parse_frame_take_error [OF f Suc.prems(2) lt] show ?thesis by simp
  qed
qed

lemma parse_anim_take_error:
  assumes "parse_anim data aid offset m = Inr (a, offset', m')"
    and "offset \<le> n" and "n < offset'"
  shows "parse_anim (take n data) aid offset m = Inl (anim_errors a ! (n - offset))"
proof -
  from assms(1) obtain nf fs where
    nf: "index_byte data offset = Inr nf" and
    fs: "parse_frames data (nat nf) 0 (offset + 1) m = Inr (fs, offset', m')" and
    a: "a = \<lparr>anim_id = int aid, frames = fs\<rparr>"
    by (auto simp: parse_anim_def split: sum.splits)
  show ?thesis
  proof (cases "offset + 1 \<le> n")
    case True
    with nf have "index_byte (take n data) offset = Inr nf"
      by (simp add: index_byte_take)
    moreover note parse_frames_take_error [OF fs True assms(3)]
    moreover have "n - offset = Suc (n - (offset + 1))" using True by simp
    then have "anim_errors a ! (n - offset) =
               concat (map frame_errors fs) ! (n - (offset + 1))"
      using a by (simp add: anim_errors_def)
    ultimately show ?thesis by (simp add: parse_anim_def)
  next
    case False
    with assms(2) have n: "n = offset" by simp
    then have "index_byte (take n data) offset = Inl IndexError"
      by (simp add: index_byte_take)
    with n show ?thesis by (simp add: parse_anim_def anim_errors_def)
  qed
qed

lemma parse_anims_take_error:
  assumes "parse_anims data k aid offset m = Inr (as, offset', m')"
    and "offset \<le> n" and "n < offset'"
  shows "parse_anims (take n data) k aid offset m =
           Inl (concat (map anim_errors as) ! (n - offset))"
  using assms
proof (induction k arbitrary: aid offset m as)
  case 0
  then show ?case by simp
next
  case (Suc k)
  from Suc.prems(1) obtain a o1 m1 as1 where
    a: "parse_anim data aid offset m = Inr (a, o1, m1)" and
    r: "parse_anims data k (Suc aid) o1 m1 = Inr (as1, offset', m')" and
    as: "as = a # as1"
    by (auto split: sum.splits)
  have o1: "o1 = offset + length (anim_errors a)"
    using parse_anim_Inr(2) [OF a] by (simp add: length_anim_errors)
  show ?case
  proof (cases "o1 \<le> n")
    case True
    have "n - offset = length (anim_errors a) + (n - o1)" using True o1 by simp
    then have "concat (map anim_errors as) ! (n - offset) =
               concat (map anim_errors as1) ! (n - o1)"
      using as by (simp add: nth_append)
    with parse_anim_take_ok [OF a True] Suc.IH [OF r True Suc.prems(3)]
    show ?thesis by simp
  next
    case False
    then have lt: "n < o1" by simp
    then have "n - offset < length (anim_errors a)" using o1 Suc.prems(2) by simp
    then have "concat (map anim_errors as) ! (n - offset) = anim_errors a ! (n - offset)"
      using as by (simp add: nth_append)
    with parse_anim_take_error [OF a Suc.prems(2) lt] show ?thesis by simp
  qed
qed

lemma parse_body_consumed:
  assumes "parse_body data pid np offset = (out, Inr (r, k))"
  shows "k = offset + 2 + length (concat (map anim_errors (animations r)))"
proof -
  from assms obtain na as m where
    as: "parse_anims data (nat na) 0 (offset + 2) 0 = Inr (as, k, m)" and
    r: "r = \<lparr>package_id = pid, animations = as, num_packages = np,
             num_animations = na, max_sprite_index = m\<rparr>"
    by (auto simp: parse_body_def split: sum.splits)
  show ?thesis
    using parse_anims_Inr [OF as] r by (simp add: length_anims_errors)
qed

lemma parse_body_take_error:
  assumes "parse_body data pid np offset = (out, Inr (r, k))"
    and "offset \<le> n" and "n < k"
  shows "snd (parse_body (take n data) pid np offset) =
           Inl (([StructError, StructError] @ concat (map anim_errors (animations r))) !
                  (n - offset))"
proof -
  from assms(1) obtain na as m where
    na: "unpack_BE_H (bytes_slice data offset (offset + 2)) = Inr na" and
    as: "parse_anims data (nat na) 0 (offset + 2) 0 = Inr (as, k, m)" and
    r: "r = \<lparr>package_id = pid, animations = as, num_packages = np,
             num_animations = na, max_sprite_index = m\<rparr>"
    by (auto simp: parse_body_def split: sum.splits)
  show ?thesis
  proof (cases "offset + 2 \<le> n")
    case True
    with na have "unpack_BE_H (bytes_slice (take n data) offset (offset + 2)) = Inr na"
      by (simp add: bytes_slice_take)
    moreover note parse_anims_take_error [OF as True assms(3)]
    moreover have "n - offset = 2 + (n - (offset + 2))" using True by simp
    then have "([StructError, StructError] @ concat (map anim_errors as)) ! (n - offset) =
               concat (map anim_errors as) ! (n - (offset + 2))"
      by (simp add: nth_Cons')
    ultimately show ?thesis using r by (simp add: parse_body_def)
  next
    case False
    then have "unpack_BE_H (bytes_slice (take n data) offset (offset + 2)) = Inl StructError"
      by (simp add: unpack_BE_H_take)
    moreover from False assms(2) have "n - offset = 0 \<or> n - offset = 1" by linarith
    then have "([StructError, StructError] @ concat (map anim_errors (animations r))) !
                 (n - offset) = StructError"
      by auto
    ultimately show ?thesis by (simp add: parse_body_def)
  qed
qed

lemma parse_dat_take_error:
  assumes "parse_dat data pid = (out, Inr (r, k))"
  shows "n < k \<Longrightarrow> snd (parse_dat (take n data) pid) = Inl (overrun_errors r ! n)"
    and "length (overrun_errors r) = k"
proof -
  from assms obtain np offset out0 out1 where
    h: "read_num_packages data pid = Inr (np, offset, out0)" and
    b: "parse_body data pid np offset = (out1, Inr (r, k))"
    by (auto simp: parse_dat_def split: sum.splits prod.splits)
  note rh = read_num_packages_Inr [OF h]
  have npr: "num_packages r = np" using parse_body_Inr(5) [OF b] .
  have hdr: "(case num_packages r of None \<Rightarrow> [] | Some np \<Rightarrow> [IndexError]) =
             replicate offset IndexError"
    using rh(1,3) npr by (simp split: if_splits)
  have oe: "overrun_errors r = replicate offset IndexError @
              ([StructError, StructError] @ concat (map anim_errors (animations r)))"
    unfolding overrun_errors_def hdr by simp
  show "length (overrun_errors r) = k"
    using parse_body_consumed [OF b] oe by simp
  assume nk: "n < k"
  show "snd (parse_dat (take n data) pid) = Inl (overrun_errors r ! n)"
  proof (cases "offset \<le> n")
    case True
    with h rh(1) have "read_num_packages (take n data) pid = Inr (np, offset, out0)"
      by (auto simp: read_num_packages_def index_byte_take split: if_splits sum.splits)
    moreover note parse_body_take_error [OF b True nk]
    moreover have "overrun_errors r ! n =
        ([StructError, StructError] @ concat (map anim_errors (animations r))) ! (n - offset)"
      using True unfolding oe by (simp add: nth_append del: append.simps)
    ultimately show ?thesis
      by (auto simp: parse_dat_def split: prod.splits)
  next
    case False
    with rh(1) have p: "pid = 0" and n: "n = 0" and o: "offset = 1"
      by (auto split: if_splits)
    have "read_num_packages (take n data) pid = Inl IndexError"
      using p n by (simp add: read_num_packages_def index_byte_def)
    moreover have "overrun_errors r ! n = IndexError"
      unfolding oe using n o by simp
    ultimately show ?thesis by (simp add: parse_dat_def)
  qed
qed

subsection \<open>Enough bytes make every read succeed\<close>

lemma index_byte_le_255: "index_byte data offset = Inr v \<Longrightarrow> nat v \<le> 255"
  using uint8_bounds [of "data ! offset"]
  by (auto simp: index_byte_def split: if_splits)

lemma parse_layer_room:
  assumes "offset + 12 \<le> length data"
  shows "\<exists>l m'. parse_layer data offset m = Inr (l, offset + 12, m')"
proof -
  have "offset + 2 \<le> length data" "offset + 4 \<le> length data" "offset + 6 \<le> length data"
    "offset + 8 \<le> length data"
    using assms by simp_all
  with assms show ?thesis
    by (simp add: parse_layer_def unpack_BE_H_slice unpack_BE_I_slice Let_def)
qed

lemma parse_layers_room:
  "offset + 12 * n \<le> length data \<Longrightarrow>
   \<exists>ls m'. parse_layers data n offset m = Inr (ls, offset + 12 * n, m')"
proof (induction n arbitrary: offset m)
  case 0
  then show ?case by simp
next
  case (Suc n)
  then have "offset + 12 \<le> length data" by simp
  from parse_layer_room [OF this] obtain l m1 where
    l: "parse_layer data offset m = Inr (l, offset + 12, m1)" by blast
  from Suc.prems have "offset + 12 + 12 * n \<le> length data" by simp
  from Suc.IH [OF this] obtain ls m2 where
    "parse_layers data n (offset + 12) m1 = Inr (ls, offset + 12 + 12 * n, m2)" by blast
  with l show ?case by simp
qed

lemma parse_frame_room:
  assumes "offset + 3062 \<le> length data"
  shows "\<exists>f offset' m'. parse_frame data fid offset m = Inr (f, offset', m') \<and>
           offset' \<le> offset + 3062"
proof -
  from assms have d: "unpack_b (bytes_slice data offset (offset + 1)) = Inr (sint (data ! offset))"
    by (simp add: unpack_b_slice)
  from assms obtain nl where nl: "index_byte data (offset + 1) = Inr nl"
    by (simp add: index_byte_def)
  have "nat nl \<le> 255" using index_byte_le_255 [OF nl] .
  with assms have "offset + 2 + 12 * nat nl \<le> length data" by simp
  from parse_layers_room [OF this] obtain ls m' where
    ls: "parse_layers data (nat nl) (offset + 2) m = Inr (ls, offset + 2 + 12 * nat nl, m')"
    by blast
  have "offset + 2 + 12 * nat nl \<le> offset + 3062" using \<open>nat nl \<le> 255\<close> by simp
  with d nl ls show ?thesis by (simp add: parse_frame_def)
qed

lemma parse_frames_room:
  "offset + 3062 * n \<le> length data \<Longrightarrow>
   \<exists>fs offset' m'. parse_frames data n fid offset m = Inr (fs, offset', m') \<and>
      offset' \<le> offset + 3062 * n"
proof (induction n arbitrary: fid offset m)
  case 0
  then show ?case by simp
next
  case (Suc n)
  then have "offset + 3062 \<le> length data" by simp
  from parse_frame_room [OF this] obtain f o1 m1 where
    f: "parse_frame data fid offset m = Inr (f, o1, m1)" and o1: "o1 \<le> offset + 3062"
    by blast
  from Suc.prems o1 have "o1 + 3062 * n \<le> length data" by simp
  from Suc.IH [OF this] obtain fs o2 m2 where
    "parse_frames data n (Suc fid) o1 m1 = Inr (fs, o2, m2)" and "o2 \<le> o1 + 3062 * n"
    by blast
  with f o1 show ?case by simp
qed

lemma parse_anim_room:
  assumes "offset + 780811 \<le> length data"
  shows "\<exists>a offset' m'. parse_anim data aid offset m = Inr (a, offset', m') \<and>
           offset' \<le> offset + 780811"
proof -
  from assms obtain nf where nf: "index_byte data offset = Inr nf"
    by (simp add: index_byte_def)
  have le: "nat nf \<le> 255" using index_byte_le_255 [OF nf] .
  then have "3062 * nat nf \<le> 780810" by simp
  with assms have "offset + 1 + 3062 * nat nf \<le> length data" by simp
  from parse_frames_room [OF this] obtain fs o1 m1 where
    fs: "parse_frames data (nat nf) 0 (offset + 1) m = Inr (fs, o1, m1)" and
    o1: "o1 \<le> offset + 1 + 3062 * nat nf"
    by blast
  from o1 \<open>3062 * nat nf \<le> 780810\<close> have "o1 \<le> offset + 780811" by simp
  with nf fs show ?thesis by (simp add: parse_anim_def)
qed

lemma parse_anims_room:
  "offset + 780811 * n \<le> length data \<Longrightarrow>
   \<exists>as offset' m'. parse_anims data n aid offset m = Inr (as, offset', m')"
proof (induction n arbitrary: aid offset m)
  case 0
  then show ?case by simp
next
  case (Suc n)
  then have "offset + 780811 \<le> length data" by simp
  from parse_anim_room [OF this] obtain a o1 m1 where
    a: "parse_anim data aid offset m = Inr (a, o1, m1)" and o1: "o1 \<le> offset + 780811"
    by blast
  from Suc.prems o1 have "o1 + 780811 * n \<le> length data" by simp
  from Suc.IH [OF this] obtain as o2 m2 where
    "parse_anims data n (Suc aid) o1 m1 = Inr (as, o2, m2)" by blast
  with a show ?case by simp
qed

lemma parse_dat_room:
  assumes "51170448888 \<le> length data"
  shows "\<exists>out r k. parse_dat data pid = (out, Inr (r, k))"
proof -
  have "data \<noteq> []" using assms by auto
  then have "\<exists>np offset ls. read_num_packages data pid = Inr (np, offset, ls) \<and> offset \<le> 1"
    by (simp add: read_num_packages_eq)
  then obtain np offset ls where
    h: "read_num_packages data pid = Inr (np, offset, ls)" and o: "offset \<le> 1"
    by blast
  from assms o have b: "offset + 2 \<le> length data" by simp
  define na where "na = uint (data ! offset) * 256 + uint (data ! (offset + 1))"
  have u: "unpack_BE_H (bytes_slice data offset (offset + 2)) = Inr na"
    using b by (simp add: unpack_BE_H_slice na_def)
  have "nat na \<le> 65535"
    using uint8_bounds [of "data ! offset"] uint8_bounds [of "data ! (offset + 1)"]
    by (simp add: na_def)
  then have "780811 * nat na \<le> 780811 * 65535" by simp
  with assms o have "offset + 2 + 780811 * nat na \<le> length data" by simp
  from parse_anims_room [OF this] obtain as k m where
    "parse_anims data (nat na) 0 (offset + 2) 0 = Inr (as, k, m)" by blast
  with h u show ?thesis by (simp add: parse_dat_def parse_body_def)
qed

subsection \<open>Decoding the example buffers\<close>

lemma str_nat_digit: "n < 10 \<Longrightarrow> str_nat n = [digit_char n]"
  by (simp add: str_nat.simps)

lemma empty_package_eval:
  "parse_dat [0x01, 0x00, 0x00] 0 =
     ([''Num packages: 1'', ''Num animations: 0'', ''Max sprite index: 0'',
       ''Bytes read: 3, File size: 3''], Inr (empty_package, 3))"
  by (simp add: parse_dat_def read_num_packages_def parse_body_def index_byte_def bytes_slice_def
      str_int_def str_nat_digit digit_char_def)

lemma scenario_layer_eval: "parse_layer scenario_buffer 5 0 = Inr (scenario_layer, 17, 1)"
  by (simp add: parse_layer_def bytes_slice_def hex_int_def hex_nat.simps digit_char_def drop_bit_eq_div)

lemma scenario_frame_eval: "parse_frame scenario_buffer 0 3 0 = Inr (scenario_frame, 17, 1)"
  by (simp add: parse_frame_def bytes_slice_def index_byte_def scenario_layer_eval)

lemma scenario_anim_eval: "parse_anim scenario_buffer 0 2 0 = Inr (scenario_anim, 17, 1)"
  by (simp add: parse_anim_def index_byte_def scenario_frame_eval)

lemma scenario_eval:
  "parse_dat scenario_buffer 7 = (scenario_lines, Inr (scenario_package, 17))"
  by (simp add: parse_dat_def read_num_packages_def parse_body_def bytes_slice_def
      scenario_anim_eval [unfolded numeral_2_eq_2] str_int_def str_nat.simps digit_char_def)

lemma scenario_overrun_errors:
  "overrun_errors scenario_package =
     [StructError, StructError, IndexError, StructError, IndexError,
      StructError, StructError, StructError, StructError, StructError, StructError,
      StructError, StructError, StructError, StructError, StructError, StructError]"
  by (simp add: overrun_errors_def anim_errors_def frame_errors_def numeral_eq_Suc)

lemma endian_layer_eval: "parse_layer endian_buffer 5 0 = Inr (endian_layer, 17, 0)"
  by (simp add: parse_layer_def bytes_slice_def hex_int_def hex_nat.simps digit_char_def)

lemma endian_frame_eval:
  "parse_frame endian_buffer 0 3 0 =
     Inr (\<lparr>frame_id = 0, layers = [endian_layer], delay = 0\<rparr>, 17, 0)"
  by (simp add: parse_frame_def bytes_slice_def index_byte_def endian_layer_eval)

lemma endian_anim_eval:
  "parse_anim endian_buffer 0 2 0 =
     Inr (\<lparr>anim_id = 0, frames = [\<lparr>frame_id = 0, layers = [endian_layer], delay = 0\<rparr>]\<rparr>,
          17, 0)"
  by (simp add: parse_anim_def index_byte_def endian_frame_eval)

lemma endian_eval:
  "parse_dat endian_buffer 7 =
     ([''Num animations: 1'', ''Max sprite index: 0'', ''Bytes read: 17, File size: 17''],
      Inr (\<lparr>package_id = 7,
             animations =
               [\<lparr>anim_id = 0,
                 frames = [\<lparr>frame_id = 0, layers = [endian_layer], delay = 0\<rparr>]\<rparr>],
             num_packages = None, num_animations = 1, max_sprite_index = 0\<rparr>, 17))"
  by (simp add: parse_dat_def read_num_packages_def parse_body_def bytes_slice_def
      endian_anim_eval [unfolded numeral_2_eq_2] str_int_def str_nat.simps digit_char_def)

lemma parse_anims_no_room:
  "0 < n \<Longrightarrow> length data \<le> offset \<Longrightarrow> parse_anims data n aid offset m = Inl IndexError"
  by (cases n) (simp_all add: parse_anim_def index_byte_def)

lemma two_byte_eval:
  "parse_dat [0x01, 0x02] 7 = ([''Num animations: 258''], Inl IndexError)"
proof -
  have "parse_anims [0x01, 0x02] (nat 258) 0 (0 + 2) 0 = Inl IndexError"
    by (rule parse_anims_no_room) simp_all
  then show ?thesis
    by (simp add: parse_dat_def read_num_packages_def parse_body_def bytes_slice_def
        str_int_def str_nat.simps digit_char_def)
qed

section \<open>The claims\<close>

text \<open>
  Claim C1, on the code. The rect fields are unpacked with \<^verbatim>\<open>'>H'\<close>, big-endian, like
  \<^verbatim>\<open>num_animations\<close>: the bytes 01 02 give 258 (0x0102) as \<^verbatim>\<open>rect_x\<close> of the first layer,
  not 513 (0x0201), and the same two bytes give 258 as \<^verbatim>\<open>num_animations\<close>.
\<close>

theorem C1_rect_fields_read_big_endian:
  "parse_dat endian_buffer 7 =
     ([''Num animations: 1'', ''Max sprite index: 0'', ''Bytes read: 17, File size: 17''],
      Inr (\<lparr>package_id = 7,
             animations =
               [\<lparr>anim_id = 0,
                 frames =
                   [\<lparr>frame_id = 0,
                     layers =
                       [\<lparr>rect = \<lparr>rect_x = 258, rect_y = 772, rect_w = 1286, rect_h = 1800\<rparr>,
                         sprite_index = 0, x_offset = - 512, y_offset = - 512, transform = 0,
                         packed_raw = ''0x0''\<rparr>],
                     delay = 0\<rparr>]\<rparr>],
             num_packages = None, num_animations = 1, max_sprite_index = 0\<rparr>, 17)) \<and>
   parse_dat [0x01, 0x02] 7 = ([''Num animations: 258''], Inl IndexError)"
  using endian_eval two_byte_eval by simp

text \<open>
  Claim C2, as the code has it. The decoder makes no length check of its own and has no
  \<^verbatim>\<open>OutOfBounds\<close> error. Every buffer can be completed to one that decodes, and for
  every such completion, with \<open>k\<close> bytes consumed: if the buffer holds these \<open>k\<close> bytes
  it decodes to the same package; otherwise \<^verbatim>\<open>parse_dat\<close> raises, returns no package, and
  the exception is the one Python raises at the read that holds the first missing byte
  (\<open>overrun_errors\<close>): \<^verbatim>\<open>IndexError\<close> where that byte is a count read by indexing
  (\<^verbatim>\<open>num_packages\<close>, \<^verbatim>\<open>num_frames\<close>, \<^verbatim>\<open>num_layers\<close>), \<^verbatim>\<open>struct.error\<close> where it belongs to
  a field read by \<^verbatim>\<open>struct.unpack\<close> (\<^verbatim>\<open>num_animations\<close>, the delay, the rect fields, the
  packed field). Neither exception carries an offset.
\<close>

theorem C2_overrun_raises:
  "(\<exists>ext out r k. parse_dat (buf @ ext) pid = (out, Inr (r, k))) \<and>
   (\<forall>ext out r k. parse_dat (buf @ ext) pid = (out, Inr (r, k)) \<longrightarrow>
      k \<le> length (buf @ ext) \<and> length (overrun_errors r) = k \<and>
      snd (parse_dat buf pid) =
        (if k \<le> length buf then Inr (r, k) else Inl (overrun_errors r ! length buf)))"
proof (intro conjI allI impI)
  have "51170448888 \<le> length (buf @ replicate 51170448888 (0 :: 8 word))" by simp
  from parse_dat_room [OF this]
  show "\<exists>ext out r k. parse_dat (buf @ ext) pid = (out, Inr (r, k))" by blast
next
  fix ext out r k
  assume ok: "parse_dat (buf @ ext) pid = (out, Inr (r, k))"
  have tk: "take (length buf) (buf @ ext) = buf" by simp
  show "k \<le> length (buf @ ext)" using parse_dat_take(2) [OF ok] .
  show "length (overrun_errors r) = k" using parse_dat_take_error(2) [OF ok] .
  show "snd (parse_dat buf pid) =
        (if k \<le> length buf then Inr (r, k) else Inl (overrun_errors r ! length buf))"
  proof (cases "k \<le> length buf")
    case True
    from parse_dat_take(1) [OF ok True] show ?thesis using True by (simp only: tk if_True)
  next
    case False
    then have "length buf < k" by simp
    from parse_dat_take_error(1) [OF ok this] show ?thesis
      using False by (simp only: tk if_False)
  qed
qed

theorem C2_overrun_raises_witness:
  "parse_dat ([0x00, 0x01, 0x01] @
      [0xFB, 0x01, 0x00, 0x0A, 0x00, 0x14, 0x00, 0x1E, 0x00, 0x28, 0x00, 0x80, 0x00, 0x00]) 7 =
     (scenario_lines, Inr (scenario_package, 17)) \<and>
   snd (parse_dat [0x00, 0x01, 0x01] 7) = Inl StructError \<and>
   parse_dat ([0x00, 0x01, 0x01, 0xFB] @
      [0x01, 0x00, 0x0A, 0x00, 0x14, 0x00, 0x1E, 0x00, 0x28, 0x00, 0x80, 0x00, 0x00]) 7 =
     (scenario_lines, Inr (scenario_package, 17)) \<and>
   snd (parse_dat [0x00, 0x01, 0x01, 0xFB] 7) = Inl IndexError \<and>
   snd (parse_dat scenario_buffer 7) = Inr (scenario_package, 17)"
proof -
  have e1: "parse_dat ([0x00, 0x01, 0x01] @
      [0xFB, 0x01, 0x00, 0x0A, 0x00, 0x14, 0x00, 0x1E, 0x00, 0x28, 0x00, 0x80, 0x00, 0x00]) 7 =
     (scenario_lines, Inr (scenario_package, 17))"
    using scenario_eval by simp
  have e2: "parse_dat ([0x00, 0x01, 0x01, 0xFB] @
      [0x01, 0x00, 0x0A, 0x00, 0x14, 0x00, 0x1E, 0x00, 0x28, 0x00, 0x80, 0x00, 0x00]) 7 =
     (scenario_lines, Inr (scenario_package, 17))"
    using scenario_eval by simp
  have e3: "parse_dat (scenario_buffer @ []) 7 = (scenario_lines, Inr (scenario_package, 17))"
    using scenario_eval by simp
  note a1 = C2_overrun_raises [of "[0x00, 0x01, 0x01]" 7, THEN conjunct2, rule_format, OF e1]
  note a2 = C2_overrun_raises [of "[0x00, 0x01, 0x01, 0xFB]" 7, THEN conjunct2, rule_format, OF e2]
  note a3 = C2_overrun_raises [of scenario_buffer 7, THEN conjunct2, rule_format, OF e3]
  have "snd (parse_dat [0x00, 0x01, 0x01] 7) = Inl StructError"
    using a1 by (simp add: scenario_overrun_errors)
  moreover have "snd (parse_dat [0x00, 0x01, 0x01, 0xFB] 7) = Inl IndexError"
    using a2 by (simp add: scenario_overrun_errors)
  moreover have s3: "snd (parse_dat scenario_buffer 7) = Inr (scenario_package, 17)"
    using a3 by simp
  ultimately show ?thesis using e1 e2 by simp
qed

theorem C2_counterexample:
  "parse_dat [] 0 = ([], Inl IndexError) \<and>
   parse_dat [0x01] 0 = ([''Num packages: 1''], Inl StructError) \<and>
   IndexError \<noteq> StructError"
  by (simp add: parse_dat_def read_num_packages_def parse_body_def index_byte_def
      bytes_slice_def str_int_def str_nat_digit digit_char_def)

text \<open>
  Claim C3. Every layer of a successful decode is built from the 32-bit big-endian
  value \<open>p\<close> found in the last four of its twelve bytes: \<^verbatim>\<open>sprite_index\<close> is
  \<open>(p >> 23) & 0x1FF\<close>, \<^verbatim>\<open>x_offset\<close> is \<open>((p >> 13) & 0x3FF) - 512\<close>, \<^verbatim>\<open>y_offset\<close> is
  \<open>((p >> 3) & 0x3FF) - 512\<close> and \<^verbatim>\<open>transform\<close> is \<open>p & 0x7\<close>. For \<open>p = 0x00800000\<close>
  these are 1, -512, -512 and 0.
\<close>

theorem C3_bit_fields:
  assumes "parse_dat data pid = (out, Inr (r, k))"
  shows "\<forall>l \<in> set (all_layers r). \<exists>offset p.
           offset + 12 \<le> length data \<and>
           unpack_BE_I (bytes_slice data (offset + 8) (offset + 12)) = Inr p \<and>
           packed_raw l = hex_int p \<and>
           sprite_index l = (drop_bit 23 p) AND 0x1FF \<and>
           x_offset l = ((drop_bit 13 p) AND 0x3FF) - 512 \<and>
           y_offset l = ((drop_bit 3 p) AND 0x3FF) - 512 \<and>
           transform l = p AND 0x7 \<and>
           (p = 0x00800000 \<longrightarrow>
              sprite_index l = 1 \<and> x_offset l = - 512 \<and> y_offset l = - 512 \<and> transform l = 0)"
proof
  fix l assume "l \<in> set (all_layers r)"
  with parse_dat_decoded(2) [OF assms] have "decoded_layer data l" by blast
  from decoded_layer_fields [OF this] obtain offset p where
    b: "offset + 12 \<le> length data" and
    u: "unpack_BE_I (bytes_slice data (offset + 8) (offset + 12)) = Inr p" and
    f: "packed_raw l = hex_int p" "sprite_index l = (drop_bit 23 p) AND 0x1FF"
       "x_offset l = ((drop_bit 13 p) AND 0x3FF) - 512"
       "y_offset l = ((drop_bit 3 p) AND 0x3FF) - 512" "transform l = p AND 0x7"
    by blast
  have "p = 0x00800000 \<longrightarrow>
          sprite_index l = 1 \<and> x_offset l = - 512 \<and> y_offset l = - 512 \<and> transform l = 0"
    using f(2-5) fields_of_0x800000 by simp
  with b u f show "\<exists>offset p.
           offset + 12 \<le> length data \<and>
           unpack_BE_I (bytes_slice data (offset + 8) (offset + 12)) = Inr p \<and>
           packed_raw l = hex_int p \<and>
           sprite_index l = (drop_bit 23 p) AND 0x1FF \<and>
           x_offset l = ((drop_bit 13 p) AND 0x3FF) - 512 \<and>
           y_offset l = ((drop_bit 3 p) AND 0x3FF) - 512 \<and>
           transform l = p AND 0x7 \<and>
           (p = 0x00800000 \<longrightarrow>
              sprite_index l = 1 \<and> x_offset l = - 512 \<and> y_offset l = - 512 \<and> transform l = 0)"
    by blast
qed

theorem C3_bit_fields_witness:
  "parse_dat scenario_buffer 7 = (scenario_lines, Inr (scenario_package, 17)) \<and>
   all_layers scenario_package = [scenario_layer] \<and>
   (\<exists>offset p. offset + 12 \<le> length scenario_buffer \<and>
      unpack_BE_I (bytes_slice scenario_buffer (offset + 8) (offset + 12)) = Inr p \<and>
      packed_raw scenario_layer = hex_int p \<and>
      sprite_index scenario_layer = (drop_bit 23 p) AND 0x1FF \<and>
      x_offset scenario_layer = ((drop_bit 13 p) AND 0x3FF) - 512 \<and>
      y_offset scenario_layer = ((drop_bit 3 p) AND 0x3FF) - 512 \<and>
      transform scenario_layer = p AND 0x7) \<and>
   unpack_BE_I (bytes_slice scenario_buffer 13 17) = Inr 0x00800000 \<and>
   sprite_index scenario_layer = 1 \<and> x_offset scenario_layer = - 512 \<and>
   y_offset scenario_layer = - 512 \<and> transform scenario_layer = 0"
proof -
  have al: "all_layers scenario_package = [scenario_layer]"
    by (simp add: all_layers_def all_frames_def frames_layers_def anims_frames_def)
  from C3_bit_fields [OF scenario_eval] al
  have "\<exists>offset p. offset + 12 \<le> length scenario_buffer \<and>
      unpack_BE_I (bytes_slice scenario_buffer (offset + 8) (offset + 12)) = Inr p \<and>
      packed_raw scenario_layer = hex_int p \<and>
      sprite_index scenario_layer = (drop_bit 23 p) AND 0x1FF \<and>
      x_offset scenario_layer = ((drop_bit 13 p) AND 0x3FF) - 512 \<and>
      y_offset scenario_layer = ((drop_bit 3 p) AND 0x3FF) - 512 \<and>
      transform scenario_layer = p AND 0x7"
    by (simp only: list.set ball_simps) blast
  moreover have "unpack_BE_I (bytes_slice scenario_buffer 13 17) = Inr 0x00800000"
    by (simp add: bytes_slice_def)
  ultimately show ?thesis using scenario_eval al by simp
qed

text \<open>
  Claim C4. For every layer of a successful decode, packing \<^verbatim>\<open>sprite_index\<close>,
  \<^verbatim>\<open>x_offset + 512\<close>, \<^verbatim>\<open>y_offset + 512\<close> and \<^verbatim>\<open>transform\<close> back at bits 23, 13, 3 and 0
  gives the 32-bit value the layer was decoded from: it is the value unpacked from the
  layer's last four bytes, and its \<^verbatim>\<open>hex\<close> is the layer's \<^verbatim>\<open>packed_raw\<close>.
\<close>

theorem C4_repack_lossless:
  assumes "parse_dat data pid = (out, Inr (r, k))"
  shows "\<forall>l \<in> set (all_layers r).
           packed_raw l = hex_int (repack l) \<and>
           (\<exists>offset. offset + 12 \<le> length data \<and>
              unpack_BE_I (bytes_slice data (offset + 8) (offset + 12)) = Inr (repack l))"
proof
  fix l assume "l \<in> set (all_layers r)"
  with parse_dat_decoded(2) [OF assms] have "decoded_layer data l" by blast
  from decoded_layer_fields [OF this] obtain offset p where
    b: "offset + 12 \<le> length data" and
    u: "unpack_BE_I (bytes_slice data (offset + 8) (offset + 12)) = Inr p" and
    r: "0 \<le> p" "p < 4294967296" and
    f: "packed_raw l = hex_int p" "sprite_index l = (drop_bit 23 p) AND 0x1FF"
       "x_offset l = ((drop_bit 13 p) AND 0x3FF) - 512"
       "y_offset l = ((drop_bit 3 p) AND 0x3FF) - 512" "transform l = p AND 0x7"
    by blast
  have "repack l = p"
    unfolding repack_def f(2-5) using repack_int [OF r] by simp
  with b u f(1) show "packed_raw l = hex_int (repack l) \<and>
           (\<exists>offset. offset + 12 \<le> length data \<and>
              unpack_BE_I (bytes_slice data (offset + 8) (offset + 12)) = Inr (repack l))"
    by blast
qed

theorem C4_repack_lossless_witness:
  "parse_dat scenario_buffer 7 = (scenario_lines, Inr (scenario_package, 17)) \<and>
   all_layers scenario_package = [scenario_layer] \<and>
   packed_raw scenario_layer = hex_int (repack scenario_layer) \<and>
   repack scenario_layer = 0x00800000"
proof -
  have al: "all_layers scenario_package = [scenario_layer]"
    by (simp add: all_layers_def all_frames_def frames_layers_def anims_frames_def)
  from C4_repack_lossless [OF scenario_eval] al
  have "packed_raw scenario_layer = hex_int (repack scenario_layer)"
    by simp
  moreover have "repack scenario_layer = 0x00800000"
    by (simp add: repack_def push_bit_eq_mult)
  ultimately show ?thesis using scenario_eval al by simp
qed

text \<open>
  Claim C5. For every buffer: the byte \<^verbatim>\<open>num_packages\<close> is read, and the cursor moved
  by 1, exactly when \<^verbatim>\<open>package_id\<close> is 0 (an empty buffer raises IndexError there);
  in every case \<^verbatim>\<open>num_animations\<close> is then read at the cursor as a big-endian unsigned
  16-bit value (struct.error when fewer than two bytes are left) and the animation
  loop starts two bytes later, whether or not the loop then succeeds. The dictionary
  has \<^verbatim>\<open>num_packages\<close> only for package 0.
\<close>

theorem C5_header:
  "read_num_packages data pid =
     (if pid = 0 then
        (if data = [] then Inl IndexError
         else Inr (Some (uint (data ! 0)), 1, [''Num packages: '' @ str_int (uint (data ! 0))]))
      else Inr (None, 0, [])) \<and>
   parse_dat data pid =
     (case read_num_packages data pid of
        Inl e \<Rightarrow> ([], Inl e)
      | Inr (np, offset, ls) \<Rightarrow>
          if length data < offset + 2 then (ls, Inl StructError)
          else
            let na = uint (data ! offset) * 256 + uint (data ! (offset + 1)) in
            case parse_anims data (nat na) 0 (offset + 2) 0 of
              Inl e \<Rightarrow> (ls @ [''Num animations: '' @ str_int na], Inl e)
            | Inr (as, k, m) \<Rightarrow>
                (ls @ [''Num animations: '' @ str_int na,
                       ''Max sprite index: '' @ str_int m,
                       ''Bytes read: '' @ str_int (int k) @ '', File size: '' @
                          str_int (int (length data))],
                 Inr (\<lparr>package_id = pid, animations = as, num_packages = np,
                        num_animations = na, max_sprite_index = m\<rparr>, k)))"
proof -
  have "parse_dat data pid =
     (case read_num_packages data pid of
        Inl e \<Rightarrow> ([], Inl e)
      | Inr (np, offset, ls) \<Rightarrow>
          if length data < offset + 2 then (ls, Inl StructError)
          else
            let na = uint (data ! offset) * 256 + uint (data ! (offset + 1)) in
            case parse_anims data (nat na) 0 (offset + 2) 0 of
              Inl e \<Rightarrow> (ls @ [''Num animations: '' @ str_int na], Inl e)
            | Inr (as, k, m) \<Rightarrow>
                (ls @ [''Num animations: '' @ str_int na,
                       ''Max sprite index: '' @ str_int m,
                       ''Bytes read: '' @ str_int (int k) @ '', File size: '' @
                          str_int (int (length data))],
                 Inr (\<lparr>package_id = pid, animations = as, num_packages = np,
                        num_animations = na, max_sprite_index = m\<rparr>, k)))"
    unfolding parse_dat_def parse_body_eq
    by (auto simp: Let_def split: sum.splits prod.splits)
  with read_num_packages_eq show ?thesis by blast
qed

theorem C5_header_witness:
  "parse_dat [0x05, 0x00, 0x01] 0 =
     ([''Num packages: 5'', ''Num animations: 1''], Inl IndexError)"
proof -
  have "parse_anims [0x05, 0x00, 0x01] (nat 1) 0 (1 + 2) 0 = Inl IndexError"
    by (rule parse_anims_no_room) simp_all
  with C5_header [of "[0x05, 0x00, 0x01]" 0] show ?thesis
    by (simp add: str_int_def str_nat_digit digit_char_def)
qed

text \<open>
  Claim C6. A successful decode returns as many animations as \<^verbatim>\<open>num_animations\<close> says;
  each animation has as many frames as the count byte read at its start, and each frame
  as many layers as the count byte read after its delay.
\<close>

theorem C6_declared_counts:
  assumes "parse_dat data pid = (out, Inr (r, k))"
  shows "int (length (animations r)) = num_animations r \<and>
         declared_anims data (if pid = 0 then 3 else 2) (animations r)"
proof -
  note pd = parse_dat_Inr [OF assms]
  note pa = parse_anims_Inr [OF pd(4)]
  have "0 \<le> num_animations r"
    using pd(3) uint8_bounds [of "data ! (header_size pid - 2)"]
      uint8_bounds [of "data ! (header_size pid - 1)"] by simp
  with pa have "int (length (animations r)) = num_animations r" by simp
  moreover from pa have "declared_anims data (if pid = 0 then 3 else 2) (animations r)"
    by (simp add: header_size_def)
  ultimately show ?thesis by blast
qed

theorem C6_declared_counts_witness:
  "parse_dat scenario_buffer 7 = (scenario_lines, Inr (scenario_package, 17)) \<and>
   int (length (animations scenario_package)) = num_animations scenario_package \<and>
   declared_anims scenario_buffer 2 (animations scenario_package)"
  using C6_declared_counts [OF scenario_eval] scenario_eval
  by simp

text \<open>
  Claim C7. In every successful decode each layer has \<^verbatim>\<open>sprite_index\<close> in 0..511,
  \<^verbatim>\<open>transform\<close> in 0..7, \<^verbatim>\<open>x_offset\<close> and \<^verbatim>\<open>y_offset\<close> in -512..511, and each
  frame has a \<^verbatim>\<open>delay\<close> in -128..127.
\<close>

theorem C7_ranges:
  assumes "parse_dat data pid = (out, Inr (r, k))"
  shows "(\<forall>l \<in> set (all_layers r).
            0 \<le> sprite_index l \<and> sprite_index l \<le> 511 \<and>
            0 \<le> transform l \<and> transform l \<le> 7 \<and>
            - 512 \<le> x_offset l \<and> x_offset l \<le> 511 \<and>
            - 512 \<le> y_offset l \<and> y_offset l \<le> 511) \<and>
         (\<forall>f \<in> set (all_frames r). - 128 \<le> delay f \<and> delay f \<le> 127)"
proof (intro conjI ballI)
  fix f assume "f \<in> set (all_frames r)"
  with parse_dat_decoded(1) [OF assms] have "decoded_frame data f" by blast
  then show "- 128 \<le> delay f" and "delay f \<le> 127"
    using decoded_frame_facts(1) by blast+
next
  fix l assume "l \<in> set (all_layers r)"
  with parse_dat_decoded(2) [OF assms] have "decoded_layer data l" by blast
  from decoded_layer_fields [OF this] obtain p where
    "sprite_index l = (drop_bit 23 p) AND 0x1FF"
    "x_offset l = ((drop_bit 13 p) AND 0x3FF) - 512"
    "y_offset l = ((drop_bit 3 p) AND 0x3FF) - 512"
    "transform l = p AND 0x7" by blast
  with layer_field_ranges [of p]
  show "0 \<le> sprite_index l" "sprite_index l \<le> 511" "0 \<le> transform l" "transform l \<le> 7"
    "- 512 \<le> x_offset l" "x_offset l \<le> 511" "- 512 \<le> y_offset l" "y_offset l \<le> 511"
    by simp_all
qed

theorem C7_ranges_witness:
  "parse_dat scenario_buffer 7 = (scenario_lines, Inr (scenario_package, 17)) \<and>
   all_layers scenario_package = [scenario_layer] \<and>
   all_frames scenario_package = [scenario_frame] \<and>
   0 \<le> sprite_index scenario_layer \<and> sprite_index scenario_layer \<le> 511 \<and>
   0 \<le> transform scenario_layer \<and> transform scenario_layer \<le> 7 \<and>
   - 512 \<le> x_offset scenario_layer \<and> x_offset scenario_layer \<le> 511 \<and>
   - 512 \<le> y_offset scenario_layer \<and> y_offset scenario_layer \<le> 511 \<and>
   - 128 \<le> delay scenario_frame \<and> delay scenario_frame \<le> 127"
  using C7_ranges [OF scenario_eval] scenario_eval
  by (simp add: all_layers_def all_frames_def frames_layers_def anims_frames_def)

text \<open>
  Claim C8. Decoding the three bytes 01 00 00 as package 0 succeeds: the dictionary has
  \<^verbatim>\<open>num_packages\<close> 1, \<^verbatim>\<open>num_animations\<close> 0, no animation and \<^verbatim>\<open>max_sprite_index\<close> 0;
  the final offset is 3 and the last line printed reports 3 bytes read of 3.
\<close>

theorem C8_three_byte_package:
  "parse_dat [0x01, 0x00, 0x00] 0 =
     ([''Num packages: 1'', ''Num animations: 0'', ''Max sprite index: 0'',
       ''Bytes read: 3, File size: 3''],
      Inr (\<lparr>package_id = 0, animations = [], num_packages = Some 1, num_animations = 0,
             max_sprite_index = 0\<rparr>, 3))"
  by (simp add: parse_dat_def read_num_packages_def parse_body_def index_byte_def bytes_slice_def
      str_int_def str_nat_digit digit_char_def)

text \<open>
  Claim C10. \<^verbatim>\<open>max_sprite_idx\<close> starts at 0 and is only replaced by a larger
  \<^verbatim>\<open>sprite_index\<close>, so after a successful decode \<^verbatim>\<open>max_sprite_index\<close> is the maximum
  of 0 and the sprite indices of all decoded layers; with no layer at all it is 0.
\<close>

theorem C10_max_sprite_index:
  assumes "parse_dat data pid = (out, Inr (r, k))"
  shows "max_sprite_index r = Max (insert 0 (sprite_index ` set (all_layers r))) \<and>
         (all_layers r = [] \<longrightarrow> max_sprite_index r = 0)"
proof -
  note pa = parse_anims_Inr [OF parse_dat_Inr(4) [OF assms]]
  then have "max_sprite_index r = fold max (map sprite_index (all_layers r)) 0"
    by (simp add: all_layers_def all_frames_def)
  then have "max_sprite_index r = Max (insert 0 (sprite_index ` set (all_layers r)))"
    by (simp add: fold_max_Max)
  then show ?thesis by auto
qed

theorem C10_max_sprite_index_witness:
  "parse_dat scenario_buffer 7 = (scenario_lines, Inr (scenario_package, 17)) \<and>
   max_sprite_index scenario_package =
     Max (insert 0 (sprite_index ` set (all_layers scenario_package))) \<and>
   parse_dat [0x01, 0x00, 0x00] 0 =
     ([''Num packages: 1'', ''Num animations: 0'', ''Max sprite index: 0'',
       ''Bytes read: 3, File size: 3''], Inr (empty_package, 3)) \<and>
   all_layers empty_package = [] \<and> max_sprite_index empty_package = 0"
  using C10_max_sprite_index [OF scenario_eval] C10_max_sprite_index [OF empty_package_eval]
    scenario_eval empty_package_eval
  by (simp add: all_layers_def all_frames_def frames_layers_def anims_frames_def)

end
